theory Spec2Isabelle
  imports Main "HOL-Library.Signed_Division"
begin

section \<open>The shared sliding window of \<^verbatim>\<open>ext/semian/sliding_window.c\<close>\<close>

text \<open>
  The C extension keeps one \<^verbatim>\<open>semian_simple_sliding_window_shared_t\<close> in a System V
  shared memory segment and guards every method but \<^verbatim>\<open>initialize_sliding_window\<close> with
  a System V semaphore. The model below follows the C functions one by one:
  \<^item> the shared struct is a record, its \<^verbatim>\<open>int\<close> fields are \<open>int\<close>s, and \<^verbatim>\<open>data\<close> is a
    function from indices, read and written only through a bounds check. The states the
    calls can leave have every field between 0 and \<^verbatim>\<open>SLIDING_WINDOW_MAX_SIZE\<close>; with
    that constant far below \<open>2^30\<close> (the specification names 8192) the sums the code
    forms there do not overflow an \<^verbatim>\<open>int\<close>, and overflow is left out of the model;
  \<^item> C's \<^verbatim>\<open>%\<close> truncates towards zero (\<open>smod\<close>) and is undefined for a zero divisor;
    undefined behaviour is the outcome \<open>Faults\<close>;
  \<^item> \<^verbatim>\<open>rb_raise\<close>, a failing \<^verbatim>\<open>RB_NUM2INT\<close> and an exception of the block given to
    \<^verbatim>\<open>rb_yield\<close> leave the C function at once (a non-local jump): the outcome
    \<open>Raises\<close>, with the state as it is at that point;
  \<^item> the semaphore is one flag; taking it while it is taken never returns: the outcome
    \<open>Blocks\<close>.
  One key (one segment, one semaphore) is modelled; \<^verbatim>\<open>check_id_arg\<close> and
  \<^verbatim>\<open>generate_key\<close> are not part of the file and play no role below.
\<close>

subsection \<open>C integers and Ruby values\<close>

datatype fault = DivByZero | OutOfBounds | CastOverflow

definition INT_MIN :: int where
  "INT_MIN = - 2147483648"

definition INT_MAX :: int where
  "INT_MAX = 2147483647"

definition in_int :: "int \<Rightarrow> bool" where
  "in_int n = (INT_MIN \<le> n \<and> n \<le> INT_MAX)"

text \<open>\<^verbatim>\<open>a % b\<close> on \<^verbatim>\<open>int\<close>: the remainder has the sign of \<open>a\<close>.\<close>

definition c_mod :: "int \<Rightarrow> int \<Rightarrow> fault + int" where
  "c_mod a b = (if b = 0 then Inl DivByZero else Inr (a smod b))"

text \<open>
  The Ruby objects the functions receive. \<open>RFloat t\<close> stands for a finite Float whose
  integer part (towards zero) is \<open>t\<close>; \<open>RObject\<close> for any object with no integer
  conversion.
\<close>

datatype rb_value = RNil | RInteger int | RFloat int | RObject

datatype exn =
    ArgError string
  | TypeError
  | RangeError
  | LocalJumpError
  | BlockException

datatype 'a outcome = Returns 'a | Raises exn | Faults fault | Blocks

text \<open>\<^verbatim>\<open>RB_NUM2INT\<close> of the Ruby C API: the \<^verbatim>\<open>int\<close>, or an exception.\<close>

definition RB_NUM2INT :: "rb_value \<Rightarrow> exn + int" where
  "RB_NUM2INT v =
     (case v of
        RInteger n \<Rightarrow> if in_int n then Inr n else Inl RangeError
      | RFloat t \<Rightarrow> if in_int t then Inr t else Inl RangeError
      | RNil \<Rightarrow> Inl TypeError
      | RObject \<Rightarrow> Inl TypeError)"

text \<open>
  The block handed to \<^verbatim>\<open>reject!\<close>: what the \<open>i\<close>-th call of \<^verbatim>\<open>rb_yield\<close> does when
  it is given a sample (a block may keep state between its calls, so the number of the
  call is an argument). \<^verbatim>\<open>RTEST\<close> of its result is \<open>Truthy\<close> or \<open>Falsy\<close>.
\<close>

datatype yield = Truthy | Falsy | YieldRaises

type_synonym block = "nat \<Rightarrow> int \<Rightarrow> yield"

subsection \<open>The shared record, the semaphore, the segment\<close>

record window =
  max_size :: int
  length_w :: int
  start :: int
  end_w :: int
  data :: "int \<Rightarrow> int"

text \<open>
  Ghost history of the \<^verbatim>\<open>%\<close> operations of \<^verbatim>\<open>reject!\<close>, with their operands:
  \<open>ReadIndex a b\<close> for \<^verbatim>\<open>(start + i) % length\<close> on the saved locals, \<open>AdvanceStart a b\<close>
  for \<^verbatim>\<open>(window->start + 1) % window->length\<close>.
\<close>

datatype mod_event = ReadIndex int int | AdvanceStart int int

datatype shm_env = ShmOk | ShmgetFails | ShmatFails

record sys =
  shared :: window
  sem_held :: bool
  shm :: shm_env
  mod_log :: "mod_event list"

text \<open>
  Modelled from the spec: \<^verbatim>\<open>sem_meta_lock\<close> and \<^verbatim>\<open>sem_meta_unlock\<close> of
  \<^verbatim>\<open>sysv_semaphores.c\<close>, which is not among the sources. "acquire blocks the calling
  thread until the lock is free; no timeout": with the lock taken and nobody to release
  it, the call never returns (\<open>None\<close>).
\<close>

definition sem_meta_lock :: "sys \<Rightarrow> sys option" where
  "sem_meta_lock s = (if sem_held s then None else Some (s\<lparr>sem_held := True\<rparr>))"

definition sem_meta_unlock :: "sys \<Rightarrow> sys" where
  "sem_meta_unlock s = s\<lparr>sem_held := False\<rparr>"

definition get_window :: "sys \<Rightarrow> exn + window" where
  "get_window s =
     (case shm s of
        ShmgetFails \<Rightarrow> Inl (ArgError ''could not create shared memory (%s)'')
      | ShmatFails \<Rightarrow> Inl (ArgError ''could not get shared memory (%s)'')
      | ShmOk \<Rightarrow> Inr (shared s))"

text \<open>
  \<^verbatim>\<open>window->data[index]\<close>: the array has \<^verbatim>\<open>SLIDING_WINDOW_MAX_SIZE\<close> elements. The
  constant comes from \<^verbatim>\<open>sliding_window.h\<close>, which is not among the sources; it is the
  parameter \<open>cap_max\<close> of every function that needs it.
\<close>

definition read_data :: "int \<Rightarrow> window \<Rightarrow> int \<Rightarrow> fault + int" where
  "read_data cap_max w index =
     (if 0 \<le> index \<and> index < cap_max then Inr (data w index) else Inl OutOfBounds)"

subsection \<open>The methods\<close>

definition check_max_size_arg :: "int \<Rightarrow> rb_value \<Rightarrow> int outcome" where
  "check_max_size_arg cap_max v =
     (case (case v of
              RNil \<Rightarrow> Returns cap_max
            | RFloat t \<Rightarrow> if in_int t then Returns t else Faults CastOverflow
            | _ \<Rightarrow> (case RB_NUM2INT v of Inl e \<Rightarrow> Raises e | Inr n \<Rightarrow> Returns n)) of
        Returns retval \<Rightarrow>
          if retval \<le> 0 then Raises (ArgError ''max_size must be greater than zero'')
          else if retval > cap_max
            then Raises (ArgError ''max_size cannot be greater than %d'')
          else Returns retval
      | r \<Rightarrow> r)"

text \<open>
  \<^verbatim>\<open>semian_simple_sliding_window_initialize\<close> takes no lock. Modelled from the spec:
  \<^verbatim>\<open>initialize_single_semaphore\<close> (not among the sources) "creates-or-attaches a single
  named lock", which leaves the flag of the model as it is.
\<close>

definition semian_simple_sliding_window_initialize ::
  "int \<Rightarrow> rb_value \<Rightarrow> sys \<Rightarrow> unit outcome \<times> sys" where
  "semian_simple_sliding_window_initialize cap_max max_size_arg s =
     (case get_window s of
        Inl e \<Rightarrow> (Raises e, s)
      | Inr w \<Rightarrow>
          (case check_max_size_arg cap_max max_size_arg of
             Returns n \<Rightarrow>
               (Returns (),
                s\<lparr>shared := w\<lparr>max_size := n, length_w := 0, start := 0, end_w := 0\<rparr>\<rparr>)
           | Raises e \<Rightarrow> (Raises e, s)
           | Faults f \<Rightarrow> (Faults f, s)
           | Blocks \<Rightarrow> (Blocks, s)))"

definition semian_simple_sliding_window_size :: "sys \<Rightarrow> int outcome \<times> sys" where
  "semian_simple_sliding_window_size s =
     (case sem_meta_lock s of
        None \<Rightarrow> (Blocks, s)
      | Some s1 \<Rightarrow>
          (case get_window s1 of
             Inl e \<Rightarrow> (Raises e, s1)
           | Inr w \<Rightarrow> (Returns (length_w w), sem_meta_unlock s1)))"

definition semian_simple_sliding_window_max_size :: "sys \<Rightarrow> int outcome \<times> sys" where
  "semian_simple_sliding_window_max_size s =
     (case sem_meta_lock s of
        None \<Rightarrow> (Blocks, s)
      | Some s1 \<Rightarrow>
          (case get_window s1 of
             Inl e \<Rightarrow> (Raises e, s1)
           | Inr w \<Rightarrow> (Returns (max_size w), sem_meta_unlock s1)))"

text \<open>The loop of \<^verbatim>\<open>values\<close>; \<^verbatim>\<open>rb_ary_store(retval, i, ...)\<close> appends, as \<open>i\<close> is the
  size of \<open>retval\<close>.\<close>

function values_loop :: "int \<Rightarrow> window \<Rightarrow> int \<Rightarrow> int list \<Rightarrow> fault + int list" where
  "values_loop cap_max w i retval =
     (if i < length_w w then
        (case c_mod (start w + i) (max_size w) of
           Inl f \<Rightarrow> Inl f
         | Inr index \<Rightarrow>
             (case read_data cap_max w index of
                Inl f \<Rightarrow> Inl f
              | Inr v \<Rightarrow> values_loop cap_max w (i + 1) (retval @ [v])))
      else Inr retval)"
  by pat_completeness auto
termination
  by (relation "measure (\<lambda>(cap_max, w, i, retval). nat (length_w w - i))") auto

text \<open>\<^verbatim>\<open>rb_ary_new_capa\<close> raises on a negative capacity.\<close>

definition semian_simple_sliding_window_values :: "int \<Rightarrow> sys \<Rightarrow> int list outcome \<times> sys" where
  "semian_simple_sliding_window_values cap_max s =
     (case sem_meta_lock s of
        None \<Rightarrow> (Blocks, s)
      | Some s1 \<Rightarrow>
          (case get_window s1 of
             Inl e \<Rightarrow> (Raises e, s1)
           | Inr w \<Rightarrow>
               if length_w w < 0
                 then (Raises (ArgError ''negative array size (or size too big)''), s1)
               else (case values_loop cap_max w 0 [] of
                       Inl f \<Rightarrow> (Faults f, s1)
                     | Inr retval \<Rightarrow> (Returns retval, sem_meta_unlock s1))))"

definition semian_simple_sliding_window_last :: "int \<Rightarrow> sys \<Rightarrow> int outcome \<times> sys" where
  "semian_simple_sliding_window_last cap_max s =
     (case sem_meta_lock s of
        None \<Rightarrow> (Blocks, s)
      | Some s1 \<Rightarrow>
          (case get_window s1 of
             Inl e \<Rightarrow> (Raises e, s1)
           | Inr w \<Rightarrow>
               (case c_mod (start w + length_w w - 1) (max_size w) of
                  Inl f \<Rightarrow> (Faults f, s1)
                | Inr index \<Rightarrow>
                    (case read_data cap_max w index of
                       Inl f \<Rightarrow> (Faults f, s1)
                     | Inr v \<Rightarrow> (Returns v, sem_meta_unlock s1)))))"

definition semian_simple_sliding_window_clear :: "sys \<Rightarrow> unit outcome \<times> sys" where
  "semian_simple_sliding_window_clear s =
     (case sem_meta_lock s of
        None \<Rightarrow> (Blocks, s)
      | Some s1 \<Rightarrow>
          (case get_window s1 of
             Inl e \<Rightarrow> (Raises e, s1)
           | Inr w \<Rightarrow>
               (Returns (),
                sem_meta_unlock (s1\<lparr>shared := w\<lparr>length_w := 0, start := 0, end_w := 0\<rparr>\<rparr>))))"

text \<open>
  The loop of \<^verbatim>\<open>reject!\<close>. \<open>start0\<close> and \<open>length0\<close> are the locals \<^verbatim>\<open>start\<close> and
  \<^verbatim>\<open>length\<close>, saved before the loop; the shared record is changed in place.
  \<^verbatim>\<open>cleared++ != i\<close> compares the old value of \<^verbatim>\<open>cleared\<close>.
\<close>

function reject_loop ::
  "int \<Rightarrow> block \<Rightarrow> int \<Rightarrow> int \<Rightarrow> int \<Rightarrow> int \<Rightarrow> sys \<Rightarrow> unit outcome \<times> sys" where
  "reject_loop cap_max blk start0 length0 cleared i s =
     (if i < length0 then
        (case c_mod (start0 + i) length0 of
           Inl f \<Rightarrow> (Faults f, s)
         | Inr index \<Rightarrow>
             let s1 = s\<lparr>mod_log := mod_log s @ [ReadIndex (start0 + i) length0]\<rparr> in
             (case read_data cap_max (shared s1) index of
                Inl f \<Rightarrow> (Faults f, s1)
              | Inr v \<Rightarrow>
                  (case blk (nat i) v of
                     YieldRaises \<Rightarrow> (Raises BlockException, s1)
                   | Falsy \<Rightarrow> reject_loop cap_max blk start0 length0 cleared (i + 1) s1
                   | Truthy \<Rightarrow>
                       if cleared \<noteq> i then
                         (Raises (ArgError ''reject! must delete monotonically''),
                          sem_meta_unlock s1)
                       else
                         (case c_mod (start (shared s1) + 1) (length_w (shared s1)) of
                            Inl f \<Rightarrow> (Faults f, s1)
                          | Inr st \<Rightarrow>
                              reject_loop cap_max blk start0 length0 (cleared + 1) (i + 1)
                                (s1\<lparr>shared := (shared s1)
                                       \<lparr>start := st, length_w := length_w (shared s1) - 1\<rparr>,
                                     mod_log := mod_log s1 @
                                       [AdvanceStart (start (shared s1) + 1)
                                          (length_w (shared s1))]\<rparr>)))))
      else (Returns (), s))"
  by pat_completeness auto
termination
  by (relation "measure (\<lambda>(cap_max, blk, start0, length0, cleared, i, s). nat (length0 - i))")
    auto

text \<open>\<^verbatim>\<open>rb_need_block\<close> raises when no block is given, before the lock is taken.\<close>

definition semian_simple_sliding_window_reject ::
  "int \<Rightarrow> block option \<Rightarrow> sys \<Rightarrow> unit outcome \<times> sys" where
  "semian_simple_sliding_window_reject cap_max blk_opt s =
     (case blk_opt of
        None \<Rightarrow> (Raises LocalJumpError, s)
      | Some blk \<Rightarrow>
          (case sem_meta_lock s of
             None \<Rightarrow> (Blocks, s)
           | Some s1 \<Rightarrow>
               (case get_window s1 of
                  Inl e \<Rightarrow> (Raises e, s1)
                | Inr w \<Rightarrow>
                    (case reject_loop cap_max blk (start w) (length_w w) 0 0 s1 of
                       (Returns u, s2) \<Rightarrow> (Returns u, sem_meta_unlock s2)
                     | (r, s2) \<Rightarrow> (r, s2)))))"

text \<open>
  \<^verbatim>\<open>push\<close> (\<^verbatim>\<open><<\<close>). \<^verbatim>\<open>window->length++\<close> comes before \<^verbatim>\<open>RB_NUM2INT(value)\<close>, which
  comes before the store and before \<^verbatim>\<open>end\<close> is advanced.
\<close>

definition push_evict :: "window \<Rightarrow> fault + window" where
  "push_evict w =
     (if length_w w = max_size w then
        (case c_mod (start w + 1) (max_size w) of
           Inl f \<Rightarrow> Inl f
         | Inr st \<Rightarrow> Inr (w\<lparr>length_w := length_w w - 1, start := st\<rparr>))
      else Inr w)"

definition semian_simple_sliding_window_push ::
  "int \<Rightarrow> rb_value \<Rightarrow> sys \<Rightarrow> unit outcome \<times> sys" where
  "semian_simple_sliding_window_push cap_max value s =
     (case sem_meta_lock s of
        None \<Rightarrow> (Blocks, s)
      | Some s1 \<Rightarrow>
          (case get_window s1 of
             Inl e \<Rightarrow> (Raises e, s1)
           | Inr w \<Rightarrow>
               (case push_evict w of
                  Inl f \<Rightarrow> (Faults f, s1\<lparr>shared := w\<lparr>length_w := length_w w - 1\<rparr>\<rparr>)
                | Inr w1 \<Rightarrow>
                    let index = end_w w1;
                        w2 = w1\<lparr>length_w := length_w w1 + 1\<rparr>
                    in
                    (case RB_NUM2INT value of
                       Inl e \<Rightarrow> (Raises e, s1\<lparr>shared := w2\<rparr>)
                     | Inr n \<Rightarrow>
                         if \<not> (0 \<le> index \<and> index < cap_max)
                           then (Faults OutOfBounds, s1\<lparr>shared := w2\<rparr>)
                         else
                           let w3 = w2\<lparr>data := (data w2)(index := n)\<rparr> in
                           (case c_mod (end_w w3 + 1) (max_size w3) of
                              Inl f \<Rightarrow> (Faults f, s1\<lparr>shared := w3\<rparr>)
                            | Inr e \<Rightarrow>
                                (Returns (),
                                 sem_meta_unlock (s1\<lparr>shared := w3\<lparr>end_w := e\<rparr>\<rparr>)))))))"

subsection \<open>Sequences of calls\<close>

text \<open>
  A call, and the state it leaves whatever its outcome: the caller may rescue an
  exception and go on.
\<close>

datatype call =
    Initialize rb_value
  | Size
  | MaxSize
  | Values
  | Last
  | Clear
  | Reject "block option"
  | Push rb_value

fun exec :: "int \<Rightarrow> sys \<Rightarrow> call \<Rightarrow> sys" where
  "exec cap_max s (Initialize v) = snd (semian_simple_sliding_window_initialize cap_max v s)"
| "exec cap_max s Size = snd (semian_simple_sliding_window_size s)"
| "exec cap_max s MaxSize = snd (semian_simple_sliding_window_max_size s)"
| "exec cap_max s Values = snd (semian_simple_sliding_window_values cap_max s)"
| "exec cap_max s Last = snd (semian_simple_sliding_window_last cap_max s)"
| "exec cap_max s Clear = snd (semian_simple_sliding_window_clear s)"
| "exec cap_max s (Reject b) = snd (semian_simple_sliding_window_reject cap_max b s)"
| "exec cap_max s (Push v) = snd (semian_simple_sliding_window_push cap_max v s)"

definition run :: "int \<Rightarrow> call list \<Rightarrow> sys \<Rightarrow> sys" where
  "run cap_max calls s = foldl (exec cap_max) s calls"

text \<open>A state between calls: the semaphore is free, the segment can be attached.\<close>

definition idle :: "sys \<Rightarrow> bool" where
  "idle s = (\<not> sem_held s \<and> shm s = ShmOk)"

text \<open>The ranges of the fields that every call keeps once the window is initialized.\<close>

definition window_ok :: "int \<Rightarrow> window \<Rightarrow> bool" where
  "window_ok cap_max w =
     (1 \<le> max_size w \<and> max_size w \<le> cap_max \<and>
      0 \<le> length_w w \<and> length_w w \<le> max_size w \<and>
      0 \<le> start w \<and> start w < max_size w \<and>
      0 \<le> end_w w \<and> end_w w < max_size w)"

subsection \<open>Notions used to state the properties\<close>

text \<open>
  The live samples in logical order, oldest first: position \<open>i\<close> is the element
  \<open>(start + i) mod max_size\<close> of \<open>data\<close>.
\<close>

definition samples :: "window \<Rightarrow> int list" where
  "samples w = map (\<lambda>i. data w ((start w + int i) mod max_size w)) [0..<nat (length_w w)]"

text \<open>The relation between \<open>end\<close>, \<open>start\<close> and \<open>length\<close> that \<^verbatim>\<open>push\<close> relies on.\<close>

definition ring_ok :: "window \<Rightarrow> bool" where
  "ring_ok w = (end_w w = (start w + length_w w) mod max_size w)"

text \<open>The record a \<^verbatim>\<open>push\<close> of \<open>v\<close> that returns leaves behind.\<close>

definition pushed :: "int \<Rightarrow> window \<Rightarrow> window" where
  "pushed v w =
     w\<lparr>length_w := (if length_w w = max_size w then length_w w else length_w w + 1),
       start := (if length_w w = max_size w then (start w + 1) mod max_size w else start w),
       data := (data w)(end_w w := v),
       end_w := (end_w w + 1) mod max_size w\<rparr>"

text \<open>The divisor of a logged \<^verbatim>\<open>%\<close>.\<close>

fun divisor :: "mod_event \<Rightarrow> int" where
  "divisor (ReadIndex a b) = b"
| "divisor (AdvanceStart a b) = b"

fun is_read :: "mod_event \<Rightarrow> bool" where
  "is_read (ReadIndex a b) = True"
| "is_read (AdvanceStart a b) = False"

text \<open>
  The record after \<open>k\<close> accepted removals of \<^verbatim>\<open>reject!\<close>, each
  \<^verbatim>\<open>window->start = (window->start + 1) % window->length; window->length--\<close>.
\<close>

primrec removed :: "nat \<Rightarrow> window \<Rightarrow> window" where
  "removed 0 w = w"
| "removed (Suc k) w =
     (removed k w)\<lparr>start := (start (removed k w) + 1) mod length_w (removed k w),
                     length_w := length_w (removed k w) - 1\<rparr>"

text \<open>
  The reading of \<^verbatim>\<open>reject!\<close> in which every \<^verbatim>\<open>%\<close> takes the length the window has
  at that moment as its modulus: \<open>len\<close> is that length, one less after each accepted
  removal. It is stated here to be compared with what the function does.
\<close>

fun moduli_follow_length :: "int \<Rightarrow> mod_event list \<Rightarrow> bool" where
  "moduli_follow_length len [] = True"
| "moduli_follow_length len (ReadIndex a b # es) = (b = len \<and> moduli_follow_length len es)"
| "moduli_follow_length len (AdvanceStart a b # es) =
     (b = len \<and> moduli_follow_length (len - 1) es)"

subsection \<open>Concrete states\<close>

text \<open>A segment as the system hands it out (zero-filled), its semaphore free.\<close>

definition zero_sys :: sys where
  "zero_sys =
     \<lparr>shared = \<lparr>max_size = 0, length_w = 0, start = 0, end_w = 0, data = (\<lambda>_. 0)\<rparr>,
      sem_held = False, shm = ShmOk, mod_log = []\<rparr>"

text \<open>A full window of capacity 2 holding 5, 7 (oldest first).\<close>

definition full_sys :: sys where
  "full_sys =
     \<lparr>shared = \<lparr>max_size = 2, length_w = 2, start = 1, end_w = 1,
                data = (\<lambda>_. 0)(0 := 7, 1 := 5)\<rparr>,
      sem_held = False, shm = ShmOk, mod_log = []\<rparr>"

text \<open>The window 1, 2, 3, 4, 5 of capacity 5, built by five pushes.\<close>

definition sys_12345 :: sys where
  "sys_12345 =
     run 8 [Initialize (RInteger 5), Push (RInteger 1), Push (RInteger 2), Push (RInteger 3),
            Push (RInteger 4), Push (RInteger 5)] zero_sys"

declare values_loop.simps [simp del]
declare reject_loop.simps [simp del]

section \<open>Properties\<close>

subsection \<open>Arithmetic, the semaphore, evaluation\<close>

lemma c_mod_nonneg: "0 \<le> a \<Longrightarrow> 0 < b \<Longrightarrow> c_mod a b = Inr (a mod b)"
  by (simp add: c_mod_def smod_int_alt_def sgn_if)

lemma c_mod_nonzero: "b \<noteq> 0 \<Longrightarrow> c_mod a b = Inr (a smod b)"
  by (simp add: c_mod_def)

lemma c_mod_Inr_nonneg: "c_mod a b = Inr x \<Longrightarrow> 0 \<le> a \<Longrightarrow> 0 < b \<Longrightarrow> x = a mod b"
  using c_mod_nonneg [of a b] by simp

lemma c_mod_Inl: "c_mod a b = Inl f \<Longrightarrow> b = 0 \<and> f = DivByZero"
  by (auto simp: c_mod_def split: if_splits)

lemma read_data_Inl: "read_data cap_max w ix = Inl f \<Longrightarrow> f = OutOfBounds"
  by (auto simp: read_data_def split: if_splits)

lemma upto_as_upt: "[0..n - 1] = map int [0..<nat n]"
  by (rule nth_equalityI) auto

lemma unlock_after_lock:
  "\<not> sem_held s \<Longrightarrow> sem_meta_unlock (s\<lparr>sem_held := True, shared := w\<rparr>) = s\<lparr>shared := w\<rparr>"
  by (cases s) (simp add: sem_meta_unlock_def)

lemma lock_unlock_id: "\<not> sem_held s \<Longrightarrow> sem_meta_unlock (s\<lparr>sem_held := True\<rparr>) = s"
  by (cases s) (simp add: sem_meta_unlock_def)

lemma run_Nil: "run cap_max [] s = s"
  by (simp add: run_def)

lemma run_Cons: "run cap_max (x # xs) s = run cap_max xs (exec cap_max s x)"
  by (simp add: run_def)

lemmas eval_defs =
  run_def zero_sys_def full_sys_def idle_def window_ok_def
  semian_simple_sliding_window_initialize_def semian_simple_sliding_window_push_def
  semian_simple_sliding_window_reject_def semian_simple_sliding_window_values_def
  semian_simple_sliding_window_last_def semian_simple_sliding_window_clear_def
  semian_simple_sliding_window_size_def semian_simple_sliding_window_max_size_def
  check_max_size_arg_def RB_NUM2INT_def in_int_def INT_MIN_def INT_MAX_def
  get_window_def sem_meta_lock_def sem_meta_unlock_def push_evict_def
  c_mod_def signed_modulo_int_def read_data_def reject_loop.simps values_loop.simps Let_def

lemma sys_12345_eq:
  "sys_12345 =
     \<lparr>shared = \<lparr>max_size = 5, length_w = 5, start = 0, end_w = 0,
                data = (\<lambda>_. 0)(0 := 1, 1 := 2, 2 := 3, 3 := 4, 4 := 5)\<rparr>,
      sem_held = False, shm = ShmOk, mod_log = []\<rparr>"
  by (simp add: sys_12345_def eval_defs)

subsection \<open>Reading\<close>

lemma values_loop_eq:
  "1 \<le> max_size w \<Longrightarrow> max_size w \<le> cap_max \<Longrightarrow> 0 \<le> start w \<Longrightarrow> 0 \<le> i \<Longrightarrow>
   values_loop cap_max w i acc =
     Inr (acc @ map (\<lambda>j. data w ((start w + j) mod max_size w)) [i..length_w w - 1])"
proof (induction cap_max w i acc rule: values_loop.induct)
  case (1 cap_max w i acc)
  show ?case
  proof (cases "i < length_w w")
    case False
    then show ?thesis by (subst values_loop.simps) simp
  next
    case True
    let ?ix = "(start w + i) mod max_size w"
    have cm: "c_mod (start w + i) (max_size w) = Inr ?ix"
      using "1.prems" by (intro c_mod_nonneg) auto
    have "0 \<le> ?ix" "?ix < max_size w" using "1.prems" by auto
    then have rd: "read_data cap_max w ?ix = Inr (data w ?ix)"
      using "1.prems"(2) by (auto simp: read_data_def)
    have ih: "values_loop cap_max w (i + 1) (acc @ [data w ?ix]) =
      Inr ((acc @ [data w ?ix]) @ map (\<lambda>j. data w ((start w + j) mod max_size w)) [i + 1..length_w w - 1])"
      using True cm rd "1.prems" by (intro "1.IH") auto
    have "[i..length_w w - 1] = i # [i + 1..length_w w - 1]"
      using True by (intro upto_rec1) simp
    then show ?thesis
      using True cm rd ih by (subst values_loop.simps) simp
  qed
qed

lemma values_loop_samples:
  assumes "window_ok cap_max w"
  shows "values_loop cap_max w 0 [] = Inr (samples w)"
proof -
  have "values_loop cap_max w 0 [] =
     Inr ([] @ map (\<lambda>j. data w ((start w + j) mod max_size w)) [0..length_w w - 1])"
    using assms by (intro values_loop_eq) (auto simp: window_ok_def)
  then show ?thesis
    by (simp add: samples_def upto_as_upt comp_def)
qed

lemma values_returns:
  assumes "idle s" "window_ok cap_max (shared s)"
  shows "semian_simple_sliding_window_values cap_max s = (Returns (samples (shared s)), s)"
proof -
  have "\<not> length_w (shared s) < 0"
    using assms(2) by (simp add: window_ok_def)
  then show ?thesis
    using assms(1) values_loop_samples [OF assms(2)]
    by (simp add: semian_simple_sliding_window_values_def sem_meta_lock_def get_window_def
        idle_def lock_unlock_id)
qed




subsection \<open>Pushing\<close>

lemma push_returns:
  assumes "idle s" "window_ok cap_max (shared s)" "in_int v"
  shows "semian_simple_sliding_window_push cap_max (RInteger v) s =
           (Returns (), s\<lparr>shared := pushed v (shared s)\<rparr>)"
proof -
  let ?w = "shared s"
  have ev: "push_evict ?w =
      Inr (if length_w ?w = max_size ?w
           then ?w\<lparr>length_w := length_w ?w - 1, start := (start ?w + 1) mod max_size ?w\<rparr>
           else ?w)"
    using assms(2) by (simp add: push_evict_def window_ok_def c_mod_nonneg)
  have en: "c_mod (end_w ?w + 1) (max_size ?w) = Inr ((end_w ?w + 1) mod max_size ?w)"
    using assms(2) by (intro c_mod_nonneg) (auto simp: window_ok_def)
  have ix: "0 \<le> end_w ?w" "end_w ?w < cap_max"
    using assms(2) by (auto simp: window_ok_def)
  have free: "\<not> sem_held s" "shm s = ShmOk"
    using assms(1) by (simp_all add: idle_def)
  show ?thesis
    using assms(3) ix free
    by (simp add: semian_simple_sliding_window_push_def sem_meta_lock_def
        get_window_def ev en RB_NUM2INT_def pushed_def Let_def unlock_after_lock)
qed

lemma pushed_ok:
  assumes "window_ok cap_max w"
  shows "window_ok cap_max (pushed v w)"
  using assms by (auto simp: window_ok_def pushed_def)

lemma pushed_ring:
  assumes "window_ok cap_max w" "ring_ok w"
  shows "ring_ok (pushed v w)"
proof (cases "length_w w = max_size w")
  case True
  have "(start w + max_size w) mod max_size w = start w"
    using assms(1) by (simp add: window_ok_def)
  then have "end_w w = start w"
    using assms(2) True by (simp add: ring_ok_def)
  then show ?thesis
    using True by (simp add: ring_ok_def pushed_def)
next
  case False
  have "(end_w w + 1) mod max_size w = (start w + length_w w + 1) mod max_size w"
    using assms(2) by (simp add: ring_ok_def mod_add_left_eq)
  then show ?thesis
    using False by (simp add: ring_ok_def pushed_def add.assoc)
qed

lemma pushed_samples:
  assumes "window_ok cap_max w" "ring_ok w"
  shows "samples (pushed v w) =
           (if length_w w = max_size w then tl (samples w) else samples w) @ [v]"
proof (cases "length_w w = max_size w")
  case True
  let ?c = "max_size w"
  have c: "1 \<le> ?c" "0 \<le> start w" "start w < ?c"
    using assms(1) by (auto simp: window_ok_def)
  have "(start w + ?c) mod ?c = start w"
    using c by simp
  then have e: "end_w w = start w"
    using assms(2) True by (simp add: ring_ok_def)
  have idx: "((start w + 1) mod ?c + int i) mod ?c = (start w + int (Suc i)) mod ?c" for i
  proof -
    have "((start w + 1) mod ?c + int i) mod ?c = (start w + 1 + int i) mod ?c"
      by (rule mod_add_left_eq)
    then show ?thesis by (simp add: ac_simps)
  qed
  have hit: "((start w + int (Suc i)) mod ?c = start w) = (Suc i = nat ?c)" if "Suc i \<le> nat ?c" for i
  proof
    assume "Suc i = nat ?c"
    then have "int (Suc i) = ?c" using c by linarith
    then show "(start w + int (Suc i)) mod ?c = start w" using c by simp
  next
    assume h: "(start w + int (Suc i)) mod ?c = start w"
    show "Suc i = nat ?c"
    proof (rule ccontr)
      assume "Suc i \<noteq> nat ?c"
      then have lt: "int (Suc i) < ?c" using that by linarith
      have "?c dvd (start w + int (Suc i)) - start w"
        using h c by (metis mod_eq_dvd_iff mod_pos_pos_trivial)
      then have "?c dvd int (Suc i)" by simp
      then show False
        using lt zdvd_not_zless [of "int (Suc i)" ?c] by simp
    qed
  qed
  have len: "length (samples w) = nat ?c" "length (samples (pushed v w)) = nat ?c"
    using True by (simp_all add: samples_def pushed_def)
  have lhs: "samples (pushed v w) ! i =
      ((data w)(start w := v)) ((start w + int (Suc i)) mod ?c)" if "i < nat ?c" for i
  proof -
    have "samples (pushed v w) ! i =
        ((data w)(start w := v)) (((start w + 1) mod ?c + int i) mod ?c)"
      using that True e by (simp add: samples_def pushed_def)
    then show ?thesis by (simp only: idx)
  qed
  have old: "samples w ! j = data w ((start w + int j) mod ?c)" if "j < nat ?c" for j
    using that True by (simp add: samples_def)
  show ?thesis
  proof (rule nth_equalityI)
    show "length (samples (pushed v w)) =
        length ((if length_w w = max_size w then tl (samples w) else samples w) @ [v])"
      using True c len by simp
  next
    fix i assume "i < length (samples (pushed v w))"
    then have i: "i < nat ?c" using len by simp
    show "samples (pushed v w) ! i =
        ((if length_w w = max_size w then tl (samples w) else samples w) @ [v]) ! i"
    proof (cases "Suc i = nat ?c")
      case last: True
      then have "length (tl (samples w)) = i" using len by simp
      then have "(tl (samples w) @ [v]) ! i = v"
        by (metis nth_append_length)
      moreover have "samples (pushed v w) ! i = v"
        using lhs [OF i] hit [of i] last by simp
      ultimately show ?thesis using True by simp
    next
      case inner: False
      then have si: "Suc i < nat ?c" using i by simp
      then have "i < length (tl (samples w))" using len by simp
      then have "(tl (samples w) @ [v]) ! i = tl (samples w) ! i"
        by (simp add: nth_append)
      also have "\<dots> = samples w ! Suc i"
        using si len by (simp add: nth_tl)
      also have "\<dots> = data w ((start w + int (Suc i)) mod ?c)"
        using si by (rule old)
      finally have r: "(tl (samples w) @ [v]) ! i = data w ((start w + int (Suc i)) mod ?c)" .
      have "(start w + int (Suc i)) mod ?c \<noteq> start w"
        using hit [of i] si by simp
      then have "samples (pushed v w) ! i = data w ((start w + int (Suc i)) mod ?c)"
        using lhs [OF i] by simp
      then show ?thesis using r True by simp
    qed
  qed
next
  case False
  let ?c = "max_size w"
  let ?n = "length_w w"
  have c: "1 \<le> ?c" "0 \<le> start w" "start w < ?c" "0 \<le> ?n" "?n < ?c"
    using assms(1) False by (auto simp: window_ok_def)
  have e: "end_w w = (start w + ?n) mod ?c"
    using assms(2) by (simp add: ring_ok_def)
  have miss: "(start w + int i) mod ?c \<noteq> (start w + ?n) mod ?c" if "i < nat ?n" for i
  proof
    assume "(start w + int i) mod ?c = (start w + ?n) mod ?c"
    then have "(start w + ?n) mod ?c = (start w + int i) mod ?c" by simp
    then have "?c dvd (start w + ?n) - (start w + int i)"
      by (simp only: mod_eq_dvd_iff)
    then have "?c dvd ?n - int i" by simp
    moreover have "0 < ?n - int i" "?n - int i < ?c" using that c by auto
    ultimately show False
      using zdvd_not_zless by blast
  qed
  have "nat (?n + 1) = Suc (nat ?n)" using c by simp
  then show ?thesis
    using False c e miss
    by (simp add: samples_def pushed_def)
qed

lemma initialize_returns:
  assumes "shm s = ShmOk" "1 \<le> c" "c \<le> cap_max" "cap_max \<le> INT_MAX"
  shows "semian_simple_sliding_window_initialize cap_max (RInteger c) s =
           (Returns (),
            s\<lparr>shared := (shared s)\<lparr>max_size := c, length_w := 0, start := 0, end_w := 0\<rparr>\<rparr>)"
proof -
  have "in_int c"
    using assms(2-4) by (simp add: in_int_def INT_MIN_def)
  then have "check_max_size_arg cap_max (RInteger c) = Returns c"
    using assms(2,3) by (simp add: check_max_size_arg_def RB_NUM2INT_def)
  then show ?thesis
    using assms(1) by (simp add: semian_simple_sliding_window_initialize_def get_window_def)
qed

lemma run_pushes:
  assumes "idle s" "window_ok cap_max (shared s)" "ring_ok (shared s)"
    and "\<forall>v\<in>set vs. in_int v"
  shows "idle (run cap_max (map (\<lambda>v. Push (RInteger v)) vs) s) \<and>
         window_ok cap_max (shared (run cap_max (map (\<lambda>v. Push (RInteger v)) vs) s)) \<and>
         ring_ok (shared (run cap_max (map (\<lambda>v. Push (RInteger v)) vs) s)) \<and>
         max_size (shared (run cap_max (map (\<lambda>v. Push (RInteger v)) vs) s)) = max_size (shared s) \<and>
         samples (shared (run cap_max (map (\<lambda>v. Push (RInteger v)) vs) s)) =
           drop (length (samples (shared s)) + length vs - nat (max_size (shared s)))
             (samples (shared s) @ vs)"
  using assms
proof (induction vs arbitrary: s)
  case Nil
  have "length (samples (shared s)) \<le> nat (max_size (shared s))"
    using Nil.prems(2) by (auto simp: samples_def window_ok_def)
  then show ?case using Nil by (simp add: run_Nil)
next
  case (Cons v vs)
  let ?w = "shared s"
  let ?s1 = "s\<lparr>shared := pushed v ?w\<rparr>"
  have step: "exec cap_max s (Push (RInteger v)) = ?s1"
    using Cons.prems by (simp add: push_returns)
  have s1: "idle ?s1" "window_ok cap_max (shared ?s1)" "ring_ok (shared ?s1)"
    using Cons.prems by (simp_all add: idle_def pushed_ok pushed_ring)
  have ms: "max_size (shared ?s1) = max_size ?w"
    by (simp add: pushed_def)
  have sm: "samples (shared ?s1) =
      (if length_w ?w = max_size ?w then tl (samples ?w) else samples ?w) @ [v]"
    using Cons.prems by (simp add: pushed_samples)
  have ln: "length (samples ?w) = nat (length_w ?w)"
    by (simp add: samples_def)
  have bounds: "0 \<le> length_w ?w" "length_w ?w \<le> max_size ?w" "1 \<le> max_size ?w"
    using Cons.prems(2) by (auto simp: window_ok_def)
  have ih: "idle (run cap_max (map (\<lambda>v. Push (RInteger v)) vs) ?s1) \<and>
         window_ok cap_max (shared (run cap_max (map (\<lambda>v. Push (RInteger v)) vs) ?s1)) \<and>
         ring_ok (shared (run cap_max (map (\<lambda>v. Push (RInteger v)) vs) ?s1)) \<and>
         max_size (shared (run cap_max (map (\<lambda>v. Push (RInteger v)) vs) ?s1)) = max_size (shared ?s1) \<and>
         samples (shared (run cap_max (map (\<lambda>v. Push (RInteger v)) vs) ?s1)) =
           drop (length (samples (shared ?s1)) + length vs - nat (max_size (shared ?s1)))
             (samples (shared ?s1) @ vs)"
    using s1 Cons.prems(4) by (intro Cons.IH) auto
  have dr: "drop (length (samples (shared ?s1)) + length vs - nat (max_size (shared ?s1)))
             (samples (shared ?s1) @ vs) =
        drop (length (samples ?w) + length (v # vs) - nat (max_size ?w)) (samples ?w @ v # vs)"
  proof (cases "length_w ?w = max_size ?w")
    case True
    then have ne: "samples ?w \<noteq> []" using ln bounds by auto
    then obtain x xs where xs: "samples ?w = x # xs" by (cases "samples ?w") auto
    then have "length xs + 1 = nat (max_size ?w)" using ln True by simp
    then show ?thesis using True sm ms xs by simp
  next
    case False
    then show ?thesis using sm ms by simp
  qed
  show ?case
    using ih dr ms step by (simp add: run_Cons)
qed




text \<open>
  Pushes into a window just initialized with capacity \<open>c\<close>: \<^verbatim>\<open>values\<close> returns the last
  \<open>c\<close> values pushed, in the order of the pushes, and \<open>length\<close> is the number of pushes
  or \<open>c\<close>, whichever is less.
\<close>

theorem pushes_keep_newest:
  assumes "idle s" "1 \<le> c" "c \<le> cap_max" "cap_max \<le> INT_MAX" "\<forall>x\<in>set vs. in_int x"
  shows "fst (semian_simple_sliding_window_values cap_max
           (run cap_max (Initialize (RInteger c) # map (\<lambda>x. Push (RInteger x)) vs) s)) =
           Returns (drop (length vs - nat c) vs) \<and>
         length_w (shared
           (run cap_max (Initialize (RInteger c) # map (\<lambda>x. Push (RInteger x)) vs) s)) =
           min (int (length vs)) c"
proof -
  let ?w0 = "(shared s)\<lparr>max_size := c, length_w := 0, start := 0, end_w := 0\<rparr>"
  let ?s0 = "s\<lparr>shared := ?w0\<rparr>"
  let ?s1 = "run cap_max (map (\<lambda>x. Push (RInteger x)) vs) ?s0"
  have init: "exec cap_max s (Initialize (RInteger c)) = ?s0"
    using assms by (simp add: initialize_returns idle_def)
  have s0: "idle ?s0" "window_ok cap_max (shared ?s0)" "ring_ok (shared ?s0)"
    using assms by (simp_all add: idle_def window_ok_def ring_ok_def)
  have emp: "samples (shared ?s0) = []"
    by (simp add: samples_def)
  have r: "idle ?s1 \<and> window_ok cap_max (shared ?s1) \<and> ring_ok (shared ?s1) \<and>
        max_size (shared ?s1) = max_size (shared ?s0) \<and>
        samples (shared ?s1) =
          drop (length (samples (shared ?s0)) + length vs - nat (max_size (shared ?s0)))
            (samples (shared ?s0) @ vs)"
    using s0 assms(5) by (intro run_pushes) auto
  then have sm: "samples (shared ?s1) = drop (length vs - nat c) vs"
    using emp by simp
  have "0 \<le> length_w (shared ?s1)"
    using r by (simp add: window_ok_def)
  then have "length_w (shared ?s1) = int (length (samples (shared ?s1)))"
    by (simp add: samples_def)
  then have len: "length_w (shared ?s1) = min (int (length vs)) c"
    using sm assms(2) by (auto simp: min_def)
  have "semian_simple_sliding_window_values cap_max ?s1 = (Returns (samples (shared ?s1)), ?s1)"
    using r by (intro values_returns) auto
  then show ?thesis
    using sm len init by (simp add: run_Cons del: exec.simps)
qed

text \<open>The theorem at four pushes into a window of capacity 2.\<close>

theorem pushes_keep_newest_witness:
  "fst (semian_simple_sliding_window_values 8
         (run 8 [Initialize (RInteger 2), Push (RInteger 10), Push (RInteger 20),
                 Push (RInteger 30), Push (RInteger 40)] zero_sys)) = Returns [30, 40] \<and>
   length_w (shared (run 8 [Initialize (RInteger 2), Push (RInteger 10), Push (RInteger 20),
                 Push (RInteger 30), Push (RInteger 40)] zero_sys)) = 2"
proof -
  have "idle zero_sys" by (simp add: idle_def zero_sys_def)
  moreover have "(1::int) \<le> 2" "(2::int) \<le> 8" "8 \<le> INT_MAX"
    by (simp_all add: INT_MAX_def)
  moreover have "\<forall>x\<in>set [10, 20, 30, 40]. in_int x"
    by (simp add: in_int_def INT_MIN_def INT_MAX_def)
  ultimately show ?thesis
    using pushes_keep_newest [of zero_sys 2 8 "[10, 20, 30, 40]"] by simp
qed

text \<open>
  A push on a full window for which \<open>end = (start + length) mod max_size\<close> holds: what
  \<^verbatim>\<open>values\<close> returned loses its first element and gains the pushed value at the end;
  \<open>length\<close> stays at the capacity and the relation holds again.
\<close>

theorem push_on_full_drops_head:
  assumes "idle s" "window_ok cap_max (shared s)" "ring_ok (shared s)"
    and "length_w (shared s) = max_size (shared s)" "in_int v"
  shows "\<exists>xs. fst (semian_simple_sliding_window_values cap_max s) = Returns xs \<and>
           fst (semian_simple_sliding_window_values cap_max
                 (snd (semian_simple_sliding_window_push cap_max (RInteger v) s))) =
             Returns (tl xs @ [v]) \<and>
           length_w (shared (snd (semian_simple_sliding_window_push cap_max (RInteger v) s))) =
             max_size (shared s) \<and>
           ring_ok (shared (snd (semian_simple_sliding_window_push cap_max (RInteger v) s)))"
proof -
  let ?s1 = "s\<lparr>shared := pushed v (shared s)\<rparr>"
  have p: "semian_simple_sliding_window_push cap_max (RInteger v) s = (Returns (), ?s1)"
    using assms(1,2,5) by (rule push_returns)
  have s1: "idle ?s1" "window_ok cap_max (shared ?s1)"
    using assms(1,2) by (simp_all add: idle_def pushed_ok)
  have "samples (shared ?s1) = tl (samples (shared s)) @ [v]"
    using pushed_samples [OF assms(2,3), of v] assms(4) by simp
  then have "fst (semian_simple_sliding_window_values cap_max ?s1) =
      Returns (tl (samples (shared s)) @ [v])"
    using s1 by (simp add: values_returns)
  moreover have "fst (semian_simple_sliding_window_values cap_max s) =
      Returns (samples (shared s))"
    using assms(1,2) by (simp add: values_returns)
  moreover have "length_w (shared ?s1) = max_size (shared s)"
    using assms(4) by (simp add: pushed_def)
  moreover have "ring_ok (shared ?s1)"
    using pushed_ring [OF assms(2,3), of v] by simp
  ultimately show ?thesis
    using p by simp
qed

text \<open>The theorem at the full window of capacity 2 that holds 5, 7, pushed 9.\<close>

theorem push_on_full_drops_head_witness:
  "fst (semian_simple_sliding_window_values 8 full_sys) = Returns [5, 7] \<and>
   fst (semian_simple_sliding_window_values 8
         (snd (semian_simple_sliding_window_push 8 (RInteger 9) full_sys))) = Returns [7, 9] \<and>
   length_w (shared (snd (semian_simple_sliding_window_push 8 (RInteger 9) full_sys))) = 2"
proof -
  have "idle full_sys" "window_ok 8 (shared full_sys)" "ring_ok (shared full_sys)"
    "length_w (shared full_sys) = max_size (shared full_sys)" "in_int 9"
    by (simp_all add: idle_def full_sys_def window_ok_def ring_ok_def in_int_def
        INT_MIN_def INT_MAX_def)
  from push_on_full_drops_head [OF this]
  obtain xs where xs: "fst (semian_simple_sliding_window_values 8 full_sys) = Returns xs"
    "fst (semian_simple_sliding_window_values 8
         (snd (semian_simple_sliding_window_push 8 (RInteger 9) full_sys))) =
       Returns (tl xs @ [9])"
    "length_w (shared (snd (semian_simple_sliding_window_push 8 (RInteger 9) full_sys))) =
       max_size (shared full_sys)"
    by auto
  have "fst (semian_simple_sliding_window_values 8 full_sys) = Returns [5, 7]"
    by (simp add: eval_defs)
  with xs(1) have "xs = [5, 7]" by simp
  with xs show ?thesis by (simp add: full_sys_def)
qed

subsection \<open>The newest sample\<close>



subsection \<open>The loop of \<^verbatim>\<open>reject!\<close>\<close>

text \<open>
  An invariant rule for the loop: \<open>I\<close> holds of \<^verbatim>\<open>cleared\<close>, \<^verbatim>\<open>i\<close> and the state at the
  head of every iteration, \<open>Q\<close> of the outcome at every exit.
\<close>

lemma reject_loop_rule:
  assumes init: "I cleared i s"
    and finish: "\<And>c i s. I c i s \<Longrightarrow> \<not> i < length0 \<Longrightarrow> Q (Returns (), s)"
    and index_fault: "\<And>c i s f. I c i s \<Longrightarrow> i < length0 \<Longrightarrow>
        c_mod (start0 + i) length0 = Inl f \<Longrightarrow> Q (Faults f, s)"
    and read_fault: "\<And>c i s ix f. I c i s \<Longrightarrow> i < length0 \<Longrightarrow>
        c_mod (start0 + i) length0 = Inr ix \<Longrightarrow> read_data cap_max (shared s) ix = Inl f \<Longrightarrow>
        Q (Faults f, s\<lparr>mod_log := mod_log s @ [ReadIndex (start0 + i) length0]\<rparr>)"
    and block_raises: "\<And>c i s ix v. I c i s \<Longrightarrow> i < length0 \<Longrightarrow>
        c_mod (start0 + i) length0 = Inr ix \<Longrightarrow> read_data cap_max (shared s) ix = Inr v \<Longrightarrow>
        blk (nat i) v = YieldRaises \<Longrightarrow>
        Q (Raises BlockException, s\<lparr>mod_log := mod_log s @ [ReadIndex (start0 + i) length0]\<rparr>)"
    and keep: "\<And>c i s ix v. I c i s \<Longrightarrow> i < length0 \<Longrightarrow>
        c_mod (start0 + i) length0 = Inr ix \<Longrightarrow> read_data cap_max (shared s) ix = Inr v \<Longrightarrow>
        blk (nat i) v = Falsy \<Longrightarrow>
        I c (i + 1) (s\<lparr>mod_log := mod_log s @ [ReadIndex (start0 + i) length0]\<rparr>)"
    and violation: "\<And>c i s ix v. I c i s \<Longrightarrow> i < length0 \<Longrightarrow>
        c_mod (start0 + i) length0 = Inr ix \<Longrightarrow> read_data cap_max (shared s) ix = Inr v \<Longrightarrow>
        blk (nat i) v = Truthy \<Longrightarrow> c \<noteq> i \<Longrightarrow>
        Q (Raises (ArgError ''reject! must delete monotonically''),
           sem_meta_unlock (s\<lparr>mod_log := mod_log s @ [ReadIndex (start0 + i) length0]\<rparr>))"
    and advance_fault: "\<And>c i s ix v f. I c i s \<Longrightarrow> i < length0 \<Longrightarrow>
        c_mod (start0 + i) length0 = Inr ix \<Longrightarrow> read_data cap_max (shared s) ix = Inr v \<Longrightarrow>
        blk (nat i) v = Truthy \<Longrightarrow> c = i \<Longrightarrow>
        c_mod (start (shared s) + 1) (length_w (shared s)) = Inl f \<Longrightarrow>
        Q (Faults f, s\<lparr>mod_log := mod_log s @ [ReadIndex (start0 + i) length0]\<rparr>)"
    and advance: "\<And>c i s ix v st. I c i s \<Longrightarrow> i < length0 \<Longrightarrow>
        c_mod (start0 + i) length0 = Inr ix \<Longrightarrow> read_data cap_max (shared s) ix = Inr v \<Longrightarrow>
        blk (nat i) v = Truthy \<Longrightarrow> c = i \<Longrightarrow>
        c_mod (start (shared s) + 1) (length_w (shared s)) = Inr st \<Longrightarrow>
        I (c + 1) (i + 1)
          (s\<lparr>shared := (shared s)\<lparr>start := st, length_w := length_w (shared s) - 1\<rparr>,
             mod_log := mod_log s @ [ReadIndex (start0 + i) length0,
                                     AdvanceStart (start (shared s) + 1) (length_w (shared s))]\<rparr>)"
  shows "Q (reject_loop cap_max blk start0 length0 cleared i s)"
  using init
proof (induction "nat (length0 - i)" arbitrary: cleared i s)
  case 0
  then have "\<not> i < length0" by simp
  then show ?case
    using finish [OF "0.prems"] by (subst reject_loop.simps) simp
next
  case (Suc n)
  then have lt: "i < length0" by linarith
  have next_n: "n = nat (length0 - (i + 1))" using Suc.hyps(2) by linarith
  let ?s1 = "s\<lparr>mod_log := mod_log s @ [ReadIndex (start0 + i) length0]\<rparr>"
  show ?case
  proof (cases "c_mod (start0 + i) length0")
    case (Inl f)
    then show ?thesis
      using index_fault [OF Suc.prems lt Inl] lt by (subst reject_loop.simps) simp
  next
    case ix: (Inr ix)
    show ?thesis
    proof (cases "read_data cap_max (shared s) ix")
      case (Inl f)
      then show ?thesis
        using read_fault [OF Suc.prems lt ix Inl] lt ix
        by (subst reject_loop.simps) (simp add: Let_def)
    next
      case v: (Inr v)
      show ?thesis
      proof (cases "blk (nat i) v")
        case YieldRaises
        then show ?thesis
          using block_raises [OF Suc.prems lt ix v YieldRaises] lt ix v
          by (subst reject_loop.simps) (simp add: Let_def)
      next
        case Falsy
        have "Q (reject_loop cap_max blk start0 length0 cleared (i + 1) ?s1)"
          using keep [OF Suc.prems lt ix v Falsy] next_n by (rule Suc.hyps(1) [rotated])
        then show ?thesis
          using lt ix v Falsy by (subst reject_loop.simps) (simp add: Let_def)
      next
        case Truthy
        show ?thesis
        proof (cases "cleared = i")
          case False
          then show ?thesis
            using violation [OF Suc.prems lt ix v Truthy False] lt ix v Truthy
            by (subst reject_loop.simps) (simp add: Let_def)
        next
          case True
          show ?thesis
          proof (cases "c_mod (start (shared s) + 1) (length_w (shared s))")
            case (Inl f)
            then show ?thesis
              using advance_fault [OF Suc.prems lt ix v Truthy True Inl] lt ix v Truthy True
              by (subst reject_loop.simps) (simp add: Let_def)
          next
            case (Inr st)
            have "Q (reject_loop cap_max blk start0 length0 (cleared + 1) (i + 1)
                (s\<lparr>shared := (shared s)\<lparr>start := st, length_w := length_w (shared s) - 1\<rparr>,
                   mod_log := mod_log s @ [ReadIndex (start0 + i) length0,
                     AdvanceStart (start (shared s) + 1) (length_w (shared s))]\<rparr>))"
              using advance [OF Suc.prems lt ix v Truthy True Inr] next_n
              by (rule Suc.hyps(1) [rotated])
            then show ?thesis
              using lt ix v Truthy True Inr by (subst reject_loop.simps) (simp add: Let_def)
          qed
        qed
      qed
    qed
  qed
qed

lemma reject_idle:
  assumes "idle s"
  shows "semian_simple_sliding_window_reject cap_max (Some blk) s =
    (fst (reject_loop cap_max blk (start (shared s)) (length_w (shared s)) 0 0
            (s\<lparr>sem_held := True\<rparr>)),
     if fst (reject_loop cap_max blk (start (shared s)) (length_w (shared s)) 0 0
            (s\<lparr>sem_held := True\<rparr>)) = Returns ()
     then sem_meta_unlock (snd (reject_loop cap_max blk (start (shared s)) (length_w (shared s)) 0 0
            (s\<lparr>sem_held := True\<rparr>)))
     else snd (reject_loop cap_max blk (start (shared s)) (length_w (shared s)) 0 0
            (s\<lparr>sem_held := True\<rparr>)))"
proof -
  let ?r = "reject_loop cap_max blk (start (shared s)) (length_w (shared s)) 0 0
            (s\<lparr>sem_held := True\<rparr>)"
  show ?thesis
    using assms
    by (cases ?r; cases "fst ?r")
      (auto simp: semian_simple_sliding_window_reject_def sem_meta_lock_def get_window_def
        idle_def)
qed

lemma reject_loop_divisors:
  assumes "0 \<le> i" "length_w (shared s) = length0 - cleared"
    and "list_all (\<lambda>e. 1 \<le> divisor e) (mod_log s)"
  shows "fst (reject_loop cap_max blk start0 length0 cleared i s) \<noteq> Faults DivByZero \<and>
         list_all (\<lambda>e. 1 \<le> divisor e)
           (mod_log (snd (reject_loop cap_max blk start0 length0 cleared i s)))"
proof (rule reject_loop_rule [where
      I = "\<lambda>c i s. 0 \<le> i \<and> length_w (shared s) = length0 - c \<and>
             list_all (\<lambda>e. 1 \<le> divisor e) (mod_log s)"
      and Q = "\<lambda>r. fst r \<noteq> Faults DivByZero \<and> list_all (\<lambda>e. 1 \<le> divisor e) (mod_log (snd r))"],
    goal_cases)
  case 1
  then show ?case using assms by simp
next
  case (2 c i s)
  then show ?case by simp
next
  case (3 c i s f)
  then show ?case by (auto dest: c_mod_Inl)
next
  case (4 c i s ix f)
  then show ?case by (auto dest: read_data_Inl)
next
  case (5 c i s ix v)
  then show ?case by auto
next
  case (6 c i s ix v)
  then show ?case by auto
next
  case (7 c i s ix v)
  then show ?case by (auto simp: sem_meta_unlock_def)
next
  case (8 c i s ix v f)
  then show ?case by (auto dest: c_mod_Inl)
next
  case (9 c i s ix v st)
  then show ?case by auto
qed

text \<open>
  C10. Whatever the state and the block, no \<^verbatim>\<open>%\<close> of \<^verbatim>\<open>reject!\<close> divides by zero: the
  call never ends in the fault \<open>DivByZero\<close>, and every \<^verbatim>\<open>%\<close> it executes, the one of an
  accepted removal \<^verbatim>\<open>(window->start + 1) % window->length\<close> included, has a divisor of
  at least 1.
\<close>

theorem reject_modulus_never_zero:
  assumes "list_all (\<lambda>e. 1 \<le> divisor e) (mod_log s)"
  shows "fst (semian_simple_sliding_window_reject cap_max blk_opt s) \<noteq> Faults DivByZero \<and>
         list_all (\<lambda>e. 1 \<le> divisor e)
           (mod_log (snd (semian_simple_sliding_window_reject cap_max blk_opt s)))"
proof (cases blk_opt)
  case None
  then show ?thesis
    using assms by (simp add: semian_simple_sliding_window_reject_def)
next
  case (Some blk)
  show ?thesis
  proof (cases "sem_held s \<or> shm s \<noteq> ShmOk")
    case True
    then show ?thesis
      using assms Some
      by (auto simp: semian_simple_sliding_window_reject_def sem_meta_lock_def get_window_def
          split: shm_env.splits)
  next
    case False
    let ?s1 = "s\<lparr>sem_held := True\<rparr>"
    let ?r = "reject_loop cap_max blk (start (shared s)) (length_w (shared s)) 0 0 ?s1"
    have "fst ?r \<noteq> Faults DivByZero \<and> list_all (\<lambda>e. 1 \<le> divisor e) (mod_log (snd ?r))"
      using assms by (intro reject_loop_divisors) simp_all
    moreover have "semian_simple_sliding_window_reject cap_max blk_opt s =
        (fst ?r, if fst ?r = Returns () then sem_meta_unlock (snd ?r) else snd ?r)"
      using False Some
      by (cases ?r; cases "fst ?r")
        (auto simp: semian_simple_sliding_window_reject_def sem_meta_lock_def get_window_def)
    ultimately show ?thesis
      by (simp add: sem_meta_unlock_def)
  qed
qed

text \<open>
  The theorem at the window 1, 2, 3, 4, 5 and the block \<open>x < 3\<close>: two removals, with the
  divisors 5 and 4.
\<close>

theorem reject_modulus_never_zero_witness:
  "list_all (\<lambda>e. 1 \<le> divisor e) (mod_log sys_12345) \<and>
   fst (semian_simple_sliding_window_reject 8
         (Some (\<lambda>i x. if x < 3 then Truthy else Falsy)) sys_12345) \<noteq> Faults DivByZero \<and>
   list_all (\<lambda>e. 1 \<le> divisor e)
     (mod_log (snd (semian_simple_sliding_window_reject 8
         (Some (\<lambda>i x. if x < 3 then Truthy else Falsy)) sys_12345))) \<and>
   mod_log (snd (semian_simple_sliding_window_reject 8
         (Some (\<lambda>i x. if x < 3 then Truthy else Falsy)) sys_12345)) =
     [ReadIndex 0 5, AdvanceStart 1 5, ReadIndex 1 5, AdvanceStart 2 4,
      ReadIndex 2 5, ReadIndex 3 5, ReadIndex 4 5]"
proof -
  have "list_all (\<lambda>e. 1 \<le> divisor e) (mod_log sys_12345)"
    by (simp add: sys_12345_eq)
  moreover have "mod_log (snd (semian_simple_sliding_window_reject 8
         (Some (\<lambda>i x. if x < 3 then Truthy else Falsy)) sys_12345)) =
     [ReadIndex 0 5, AdvanceStart 1 5, ReadIndex 1 5, AdvanceStart 2 4,
      ReadIndex 2 5, ReadIndex 3 5, ReadIndex 4 5]"
    by (simp add: sys_12345_eq eval_defs)
  ultimately show ?thesis
    using reject_modulus_never_zero
      [of sys_12345 8 "Some (\<lambda>i x. if x < 3 then Truthy else Falsy)"]
    by simp
qed

lemma removed_frame:
  "data (removed n w) = data w" "max_size (removed n w) = max_size w"
  "end_w (removed n w) = end_w w" "length_w (removed n w) = length_w w - int n"
  by (induction n) simp_all

lemma removed_start_nonneg:
  "0 \<le> start w \<Longrightarrow> int n \<le> length_w w \<Longrightarrow> 0 \<le> start (removed n w)"
proof (induction n)
  case 0
  then show ?case by simp
next
  case (Suc n)
  then have "0 < length_w (removed n w)" by (simp add: removed_frame)
  then show ?case by simp
qed

lemma reject_loop_violation:
  fixes k j :: nat and w :: window
  defines "rd \<equiv> \<lambda>i. data w ((start w + int i) mod length_w w)"
  assumes ok: "0 \<le> start w" "length_w w \<le> cap_max"
    and kj: "k < j" "int j < length_w w"
    and pre: "\<forall>i<k. blk i (rd i) = Truthy"
    and gap: "\<forall>i. k \<le> i \<and> i < j \<longrightarrow> blk i (rd i) = Falsy"
    and hit: "blk j (rd j) = Truthy"
    and s: "shared s = w" "shm s = ShmOk"
  shows "fst (reject_loop cap_max blk (start w) (length_w w) 0 0 s) =
           Raises (ArgError ''reject! must delete monotonically'') \<and>
         shared (snd (reject_loop cap_max blk (start w) (length_w w) 0 0 s)) = removed k w \<and>
         idle (snd (reject_loop cap_max blk (start w) (length_w w) 0 0 s))"
proof (rule reject_loop_rule [where
      I = "\<lambda>c i s. 0 \<le> i \<and> i \<le> int j \<and> c = min i (int k) \<and>
             shared s = removed (nat (min i (int k))) w \<and> shm s = ShmOk"
      and Q = "\<lambda>r. fst r = Raises (ArgError ''reject! must delete monotonically'') \<and>
             shared (snd r) = removed k w \<and> idle (snd r)"],
    goal_cases)
  case 1
  then show ?case using s by simp
next
  case (2 c i s)
  then show ?case using kj by simp
next
  case (3 c i s f)
  then show ?case by (auto dest: c_mod_Inl)
next
  case (4 c i s ix f)
  then have "ix = (start w + i) mod length_w w"
    using ok by (intro c_mod_Inr_nonneg) auto
  moreover have "0 \<le> (start w + i) mod length_w w" "(start w + i) mod length_w w < length_w w"
    using 4 by auto
  moreover from this have "(start w + i) mod length_w w < cap_max"
    using ok by linarith
  ultimately show ?case
    using 4 by (auto simp: read_data_def)
next
  case (5 c i s ix v)
  then have ix: "ix = (start w + i) mod length_w w"
    using ok by (intro c_mod_Inr_nonneg) auto
  have "v = rd (nat i)"
    using 5 ix by (auto simp: read_data_def rd_def removed_frame split: if_splits)
  moreover have "blk (nat i) (rd (nat i)) \<noteq> YieldRaises"
  proof (cases "nat i < k")
    case True
    then show ?thesis using pre by simp
  next
    case False
    then show ?thesis
      using gap hit 5 by (cases "nat i = j") auto
  qed
  ultimately show ?case using 5 by simp
next
  case (6 c i s ix v)
  then have ix: "ix = (start w + i) mod length_w w"
    using ok by (intro c_mod_Inr_nonneg) auto
  have v: "v = rd (nat i)"
    using 6 ix by (auto simp: read_data_def rd_def removed_frame split: if_splits)
  have "\<not> nat i < k" using pre 6 v by auto
  moreover have "nat i \<noteq> j" using hit 6 v by auto
  ultimately have "int k \<le> i" "i < int j" using 6 by auto
  then show ?case using 6 by (simp add: min_def)
next
  case (7 c i s ix v)
  then have ix: "ix = (start w + i) mod length_w w"
    using ok by (intro c_mod_Inr_nonneg) auto
  have v: "v = rd (nat i)"
    using 7 ix by (auto simp: read_data_def rd_def removed_frame split: if_splits)
  have "int k < i" using 7 by (auto simp: min_def split: if_splits)
  then show ?case
    using 7 by (simp add: min_def sem_meta_unlock_def idle_def)
next
  case (8 c i s ix v f)
  then have "i \<le> int k" by (auto simp: min_def split: if_splits)
  then have "length_w (shared s) = length_w w - i"
    using 8 by (simp add: removed_frame min_def)
  then show ?case using 8 by (auto dest: c_mod_Inl)
next
  case (9 c i s ix v st)
  then have ix: "ix = (start w + i) mod length_w w"
    using ok by (intro c_mod_Inr_nonneg) auto
  have v: "v = rd (nat i)"
    using 9 ix by (auto simp: read_data_def rd_def removed_frame split: if_splits)
  have le: "i \<le> int k" using 9 by (auto simp: min_def split: if_splits)
  have "nat i \<noteq> k" using gap kj 9 v by auto
  then have lt: "i < int k" using le 9 by linarith
  have sh: "shared s = removed (nat i) w" using 9 le by (simp add: min_def)
  have len: "length_w (shared s) = length_w w - i"
    using sh 9 by (simp add: removed_frame)
  have "0 \<le> start (shared s)"
    using sh ok kj lt 9 by (simp add: removed_start_nonneg)
  then have st: "st = (start (shared s) + 1) mod length_w (shared s)"
    using 9 len by (intro c_mod_Inr_nonneg) auto
  have "removed (nat (i + 1)) w = removed (Suc (nat i)) w"
    using 9 by (simp add: nat_add_distrib)
  then have "removed (nat (i + 1)) w =
      (shared s)\<lparr>start := st, length_w := length_w (shared s) - 1\<rparr>"
    using sh st by simp
  then show ?case
    using 9 lt kj by (simp add: min_def)
qed

lemma built_12345:
  assumes "idle s0" "5 \<le> c" "c \<le> cap_max" "cap_max \<le> INT_MAX"
  shows "run cap_max [Initialize (RInteger c), Push (RInteger 1), Push (RInteger 2),
           Push (RInteger 3), Push (RInteger 4), Push (RInteger 5)] s0 =
         s0\<lparr>shared := \<lparr>max_size = c, length_w = 5, start = 0, end_w = 5 mod c,
              data = (data (shared s0))(0 := 1, 1 := 2, 2 := 3, 3 := 4, 4 := 5)\<rparr>\<rparr>"
proof -
  have shm: "shm s0 = ShmOk" and free: "\<not> sem_held s0"
    using assms(1) by (simp_all add: idle_def)
  have c1: "1 \<le> c" using assms(2) by simp
  have init: "exec cap_max s0 (Initialize (RInteger c)) =
      s0\<lparr>shared := (shared s0)\<lparr>max_size := c, length_w := 0, start := 0, end_w := 0\<rparr>\<rparr>"
    using initialize_returns [OF shm c1 assms(3,4)] by simp
  have step: "exec cap_max (s0\<lparr>shared := w\<rparr>) (Push (RInteger v)) =
      s0\<lparr>shared := pushed v w\<rparr>" if "window_ok cap_max w" "in_int v" for w v
    using push_returns [of "s0\<lparr>shared := w\<rparr>" cap_max v] that assms(1)
    by (simp add: idle_def)
  have small: "in_int 1" "in_int 2" "in_int 3" "in_int 4" "in_int 5"
    by (simp_all add: in_int_def INT_MIN_def INT_MAX_def)
  show ?thesis
    using assms(2,3) small
    by (cases "shared s0")
      (simp add: run_Cons run_Nil init step pushed_def window_ok_def del: exec.simps)
qed

text \<open>
  The check on \<^verbatim>\<open>cleared\<close>. \<^verbatim>\<open>reject!\<close> evaluates the block at the positions
  \<open>0, 1, ...\<close> of its own reading order, position \<open>i\<close> on the sample
  \<open>data[(start + i) mod length]\<close>. When the first
  \<open>k\<close> positions are truthy, position \<open>k\<close> is not, and the next truthy position is
  \<open>j > k\<close> (so the \<open>k\<close>-th truthy result is not at position \<open>k\<close>), the call raises
  \<^verbatim>\<open>ArgumentError\<close> "reject! must delete monotonically", the \<open>k\<close> removals made before
  are kept (the window is \<open>removed k\<close> of the one before, \<open>k\<close> shorter), and the semaphore
  is free again. For the window 1, 2, 3, 4, 5 pushed into a window just initialized with
  any capacity of at least 5, and the block \<open>x = 1 or x = 3\<close>: the call raises, and
  \<^verbatim>\<open>values\<close> then returns 2, 3, 4, 5.
\<close>

theorem reject_non_monotonic:
  "(idle s \<and> window_ok cap_max (shared s) \<and> k < j \<and> int j < length_w (shared s) \<and>
    (\<forall>i<k. blk i (data (shared s)
        ((start (shared s) + int i) mod length_w (shared s))) = Truthy) \<and>
    (\<forall>i. k \<le> i \<and> i < j \<longrightarrow> blk i (data (shared s)
        ((start (shared s) + int i) mod length_w (shared s))) = Falsy) \<and>
    blk j (data (shared s) ((start (shared s) + int j) mod length_w (shared s))) = Truthy \<longrightarrow>
      fst (semian_simple_sliding_window_reject cap_max (Some blk) s) =
        Raises (ArgError ''reject! must delete monotonically'') \<and>
      shared (snd (semian_simple_sliding_window_reject cap_max (Some blk) s)) =
        removed k (shared s) \<and>
      length_w (removed k (shared s)) = length_w (shared s) - int k \<and>
      idle (snd (semian_simple_sliding_window_reject cap_max (Some blk) s))) \<and>
   (idle t \<and> 5 \<le> c \<and> c \<le> cap_max \<and> cap_max \<le> INT_MAX \<longrightarrow>
      fst (semian_simple_sliding_window_values cap_max
        (run cap_max [Initialize (RInteger c), Push (RInteger 1), Push (RInteger 2),
           Push (RInteger 3), Push (RInteger 4), Push (RInteger 5)] t)) =
        Returns [1, 2, 3, 4, 5] \<and>
      fst (semian_simple_sliding_window_reject cap_max
        (Some (\<lambda>i x. if x = 1 \<or> x = 3 then Truthy else Falsy))
        (run cap_max [Initialize (RInteger c), Push (RInteger 1), Push (RInteger 2),
           Push (RInteger 3), Push (RInteger 4), Push (RInteger 5)] t)) =
        Raises (ArgError ''reject! must delete monotonically'') \<and>
      fst (semian_simple_sliding_window_values cap_max
        (snd (semian_simple_sliding_window_reject cap_max
          (Some (\<lambda>i x. if x = 1 \<or> x = 3 then Truthy else Falsy))
          (run cap_max [Initialize (RInteger c), Push (RInteger 1), Push (RInteger 2),
             Push (RInteger 3), Push (RInteger 4), Push (RInteger 5)] t)))) =
        Returns [2, 3, 4, 5])"
proof -
  have general: "fst (semian_simple_sliding_window_reject cap_max (Some blk) s) =
        Raises (ArgError ''reject! must delete monotonically'') \<and>
      shared (snd (semian_simple_sliding_window_reject cap_max (Some blk) s)) =
        removed k (shared s) \<and>
      length_w (removed k (shared s)) = length_w (shared s) - int k \<and>
      idle (snd (semian_simple_sliding_window_reject cap_max (Some blk) s))"
    if h: "idle s" "window_ok cap_max (shared s)" "k < j" "int j < length_w (shared s)"
      "\<forall>i<k. blk i (data (shared s)
          ((start (shared s) + int i) mod length_w (shared s))) = Truthy"
      "\<forall>i. k \<le> i \<and> i < j \<longrightarrow> blk i (data (shared s)
          ((start (shared s) + int i) mod length_w (shared s))) = Falsy"
      "blk j (data (shared s) ((start (shared s) + int j) mod length_w (shared s))) = Truthy"
    for s :: sys and cap_max k j blk
  proof -
    let ?s1 = "s\<lparr>sem_held := True\<rparr>"
    let ?r = "reject_loop cap_max blk (start (shared s)) (length_w (shared s)) 0 0 ?s1"
    have ok: "0 \<le> start (shared s)" "length_w (shared s) \<le> cap_max"
      using h(2) by (auto simp: window_ok_def)
    have s1: "shared ?s1 = shared s" "shm ?s1 = ShmOk"
      using h(1) by (simp_all add: idle_def)
    have loop: "fst ?r = Raises (ArgError ''reject! must delete monotonically'') \<and>
        shared (snd ?r) = removed k (shared s) \<and> idle (snd ?r)"
      using ok h(3-7) s1 by (rule reject_loop_violation)
    then show ?thesis
      by (simp add: reject_idle [OF h(1)] removed_frame)
  qed
  have example: "fst (semian_simple_sliding_window_values cap_max
        (run cap_max [Initialize (RInteger c), Push (RInteger 1), Push (RInteger 2),
           Push (RInteger 3), Push (RInteger 4), Push (RInteger 5)] t)) =
        Returns [1, 2, 3, 4, 5] \<and>
      fst (semian_simple_sliding_window_reject cap_max
        (Some (\<lambda>i x. if x = 1 \<or> x = 3 then Truthy else Falsy))
        (run cap_max [Initialize (RInteger c), Push (RInteger 1), Push (RInteger 2),
           Push (RInteger 3), Push (RInteger 4), Push (RInteger 5)] t)) =
        Raises (ArgError ''reject! must delete monotonically'') \<and>
      fst (semian_simple_sliding_window_values cap_max
        (snd (semian_simple_sliding_window_reject cap_max
          (Some (\<lambda>i x. if x = 1 \<or> x = 3 then Truthy else Falsy))
          (run cap_max [Initialize (RInteger c), Push (RInteger 1), Push (RInteger 2),
             Push (RInteger 3), Push (RInteger 4), Push (RInteger 5)] t)))) =
        Returns [2, 3, 4, 5]"
    if h: "idle t" "5 \<le> c" "c \<le> cap_max" "cap_max \<le> INT_MAX"
  proof -
    let ?w = "\<lparr>max_size = c, length_w = 5, start = 0, end_w = 5 mod c,
              data = (data (shared t))(0 := 1, 1 := 2, 2 := 3, 3 := 4, 4 := 5)\<rparr>"
    let ?s = "t\<lparr>shared := ?w\<rparr>"
    let ?blk = "\<lambda>(i::nat) x::int. if x = 1 \<or> x = 3 then Truthy else Falsy"
    let ?r = "semian_simple_sliding_window_reject cap_max (Some ?blk) ?s"
    have built: "run cap_max [Initialize (RInteger c), Push (RInteger 1), Push (RInteger 2),
           Push (RInteger 3), Push (RInteger 4), Push (RInteger 5)] t = ?s"
      using h by (rule built_12345)
    have idle: "idle ?s" using h(1) by (simp add: idle_def)
    have wok: "window_ok cap_max (shared ?s)"
      using h(2,3) by (simp add: window_ok_def)
    have before: "samples ?w = [1, 2, 3, 4, 5]"
      using h(2) by (simp add: samples_def upt_rec mod_pos_pos_trivial)
    have pre: "\<forall>i<1. ?blk i (data (shared ?s)
          ((start (shared ?s) + int i) mod length_w (shared ?s))) = Truthy"
      by simp
    have gap: "\<forall>i. 1 \<le> i \<and> i < 2 \<longrightarrow> ?blk i (data (shared ?s)
          ((start (shared ?s) + int i) mod length_w (shared ?s))) = Falsy"
    proof (intro allI impI)
      fix i :: nat assume "1 \<le> i \<and> i < 2"
      then have "i = 1" by simp
      then show "?blk i (data (shared ?s)
          ((start (shared ?s) + int i) mod length_w (shared ?s))) = Falsy"
        by simp
    qed
    have hit: "?blk 2 (data (shared ?s)
          ((start (shared ?s) + int 2) mod length_w (shared ?s))) = Truthy"
      by simp
    have g: "fst ?r = Raises (ArgError ''reject! must delete monotonically'') \<and>
        shared (snd ?r) = removed 1 (shared ?s) \<and>
        length_w (removed 1 (shared ?s)) = length_w (shared ?s) - int 1 \<and>
        idle (snd ?r)"
      using idle wok _ _ pre gap hit by (rule general) simp_all
    have after: "removed 1 (shared ?s) = ?w\<lparr>start := 1, length_w := 4\<rparr>"
      by (simp add: One_nat_def)
    have wok': "window_ok cap_max (shared (snd ?r))"
      using g after h(2,3) by (simp add: window_ok_def)
    have "samples (shared (snd ?r)) = [2, 3, 4, 5]"
      using g after h(2) by (simp add: samples_def upt_rec mod_pos_pos_trivial)
    then have "fst (semian_simple_sliding_window_values cap_max (snd ?r)) = Returns [2, 3, 4, 5]"
      using g wok' by (simp add: values_returns)
    moreover have "fst (semian_simple_sliding_window_values cap_max ?s) =
        Returns [1, 2, 3, 4, 5]"
      using idle wok before by (simp add: values_returns)
    ultimately show ?thesis
      using g built by simp
  qed
  show ?thesis
    using general example by blast
qed

text \<open>
  The theorem at the window 1, 2, 3, 4, 5 of capacity 5 with \<open>k = 1\<close>, \<open>j = 2\<close>, and its
  second part at capacity 5.
\<close>

theorem reject_non_monotonic_witness:
  "fst (semian_simple_sliding_window_reject 8
         (Some (\<lambda>i x. if x = 1 \<or> x = 3 then Truthy else Falsy)) sys_12345) =
     Raises (ArgError ''reject! must delete monotonically'') \<and>
   shared (snd (semian_simple_sliding_window_reject 8
         (Some (\<lambda>i x. if x = 1 \<or> x = 3 then Truthy else Falsy)) sys_12345)) =
     \<lparr>max_size = 5, length_w = 4, start = 1, end_w = 0,
      data = (\<lambda>_. 0)(0 := 1, 1 := 2, 2 := 3, 3 := 4, 4 := 5)\<rparr> \<and>
   idle (snd (semian_simple_sliding_window_reject 8
         (Some (\<lambda>i x. if x = 1 \<or> x = 3 then Truthy else Falsy)) sys_12345)) \<and>
   fst (semian_simple_sliding_window_values 8
         (snd (semian_simple_sliding_window_reject 8
           (Some (\<lambda>i x. if x = 1 \<or> x = 3 then Truthy else Falsy))
           (run 8 [Initialize (RInteger 5), Push (RInteger 1), Push (RInteger 2),
              Push (RInteger 3), Push (RInteger 4), Push (RInteger 5)] zero_sys)))) =
     Returns [2, 3, 4, 5]"
proof -
  let ?blk = "\<lambda>(i::nat) x::int. if x = 1 \<or> x = 3 then Truthy else Falsy"
  have gap: "\<forall>i. 1 \<le> i \<and> i < 2 \<longrightarrow> ?blk i (data (shared sys_12345)
          ((start (shared sys_12345) + int i) mod length_w (shared sys_12345))) = Falsy"
  proof (intro allI impI)
    fix i :: nat assume "1 \<le> i \<and> i < 2"
    then have "i = 1" by simp
    then show "?blk i (data (shared sys_12345)
          ((start (shared sys_12345) + int i) mod length_w (shared sys_12345))) = Falsy"
      by (simp add: sys_12345_eq)
  qed
  have a: "idle sys_12345 \<and> window_ok 8 (shared sys_12345) \<and> (1::nat) < 2 \<and>
      int 2 < length_w (shared sys_12345) \<and>
      (\<forall>i<1. ?blk i (data (shared sys_12345)
          ((start (shared sys_12345) + int i) mod length_w (shared sys_12345))) = Truthy) \<and>
      (\<forall>i. 1 \<le> i \<and> i < 2 \<longrightarrow> ?blk i (data (shared sys_12345)
          ((start (shared sys_12345) + int i) mod length_w (shared sys_12345))) = Falsy) \<and>
      ?blk 2 (data (shared sys_12345)
          ((start (shared sys_12345) + int 2) mod length_w (shared sys_12345))) = Truthy"
    using gap by (simp add: sys_12345_eq idle_def window_ok_def)
  have b: "idle zero_sys \<and> (5::int) \<le> 5 \<and> (5::int) \<le> 8 \<and> 8 \<le> INT_MAX"
    by (simp add: idle_def zero_sys_def INT_MAX_def)
  show ?thesis
    using reject_non_monotonic [where s = sys_12345 and cap_max = 8 and k = 1 and j = 2
        and blk = ?blk, THEN conjunct1, rule_format, OF a]
      reject_non_monotonic [where t = zero_sys and cap_max = 8 and c = 5,
        THEN conjunct2, rule_format, OF b]
    by (simp add: sys_12345_eq)
qed

lemma reject_loop_prefix:
  fixes k :: nat and w :: window
  defines "rd \<equiv> \<lambda>i. data w ((start w + int i) mod length_w w)"
  assumes ok: "0 \<le> start w" "length_w w \<le> cap_max"
    and k: "int k \<le> length_w w"
    and pre: "\<forall>i<k. blk i (rd i) = Truthy"
    and rest: "\<forall>i. k \<le> i \<and> int i < length_w w \<longrightarrow> blk i (rd i) = Falsy"
    and s: "shared s = w"
  shows "fst (reject_loop cap_max blk (start w) (length_w w) 0 0 s) = Returns () \<and>
         shared (snd (reject_loop cap_max blk (start w) (length_w w) 0 0 s)) = removed k w \<and>
         sem_held (snd (reject_loop cap_max blk (start w) (length_w w) 0 0 s)) = sem_held s \<and>
         shm (snd (reject_loop cap_max blk (start w) (length_w w) 0 0 s)) = shm s"
proof (rule reject_loop_rule [where
      I = "\<lambda>c i t. 0 \<le> i \<and> i \<le> length_w w \<and> c = min i (int k) \<and>
             shared t = removed (nat (min i (int k))) w \<and>
             sem_held t = sem_held s \<and> shm t = shm s"
      and Q = "\<lambda>r. fst r = Returns () \<and> shared (snd r) = removed k w \<and>
             sem_held (snd r) = sem_held s \<and> shm (snd r) = shm s"],
    goal_cases)
  case 1
  then show ?case using s k by simp
next
  case (2 c i t)
  then have "min i (int k) = int k" using k by (simp add: min_def)
  then show ?case using 2 by simp
next
  case (3 c i t f)
  then show ?case by (auto dest: c_mod_Inl)
next
  case (4 c i t ix f)
  then have "ix = (start w + i) mod length_w w"
    using ok by (intro c_mod_Inr_nonneg) auto
  moreover have "0 \<le> (start w + i) mod length_w w" "(start w + i) mod length_w w < length_w w"
    using 4 by auto
  moreover from this have "(start w + i) mod length_w w < cap_max"
    using ok by linarith
  ultimately show ?case
    using 4 by (auto simp: read_data_def)
next
  case (5 c i t ix v)
  then have ix: "ix = (start w + i) mod length_w w"
    using ok by (intro c_mod_Inr_nonneg) auto
  have "v = rd (nat i)"
    using 5 ix by (auto simp: read_data_def rd_def removed_frame split: if_splits)
  moreover have "blk (nat i) (rd (nat i)) \<noteq> YieldRaises"
    using pre rest 5 by (cases "nat i < k") auto
  ultimately show ?case using 5 by simp
next
  case (6 c i t ix v)
  then have ix: "ix = (start w + i) mod length_w w"
    using ok by (intro c_mod_Inr_nonneg) auto
  have v: "v = rd (nat i)"
    using 6 ix by (auto simp: read_data_def rd_def removed_frame split: if_splits)
  have "\<not> nat i < k" using pre 6 v by auto
  then have "int k \<le> i" using 6 by auto
  then show ?case using 6 by (simp add: min_def)
next
  case (7 c i t ix v)
  then have ix: "ix = (start w + i) mod length_w w"
    using ok by (intro c_mod_Inr_nonneg) auto
  have v: "v = rd (nat i)"
    using 7 ix by (auto simp: read_data_def rd_def removed_frame split: if_splits)
  have "int k < i" using 7 by (auto simp: min_def split: if_splits)
  then have "blk (nat i) (rd (nat i)) = Falsy" using rest 7 by auto
  then show ?case using 7 v by simp
next
  case (8 c i t ix v f)
  then have "i \<le> int k" by (auto simp: min_def split: if_splits)
  then have "length_w (shared t) = length_w w - i"
    using 8 by (simp add: removed_frame min_def)
  then show ?case using 8 by (auto dest: c_mod_Inl)
next
  case (9 c i t ix v st)
  then have ix: "ix = (start w + i) mod length_w w"
    using ok by (intro c_mod_Inr_nonneg) auto
  have v: "v = rd (nat i)"
    using 9 ix by (auto simp: read_data_def rd_def removed_frame split: if_splits)
  have le: "i \<le> int k" using 9 by (auto simp: min_def split: if_splits)
  have "nat i \<noteq> k" using rest 9 v by auto
  then have lt: "i < int k" using le 9 by linarith
  have sh: "shared t = removed (nat i) w" using 9 le by (simp add: min_def)
  have len: "length_w (shared t) = length_w w - i"
    using sh 9 by (simp add: removed_frame)
  have "0 \<le> start (shared t)"
    using sh ok k lt 9 by (simp add: removed_start_nonneg)
  then have st: "st = (start (shared t) + 1) mod length_w (shared t)"
    using 9 len by (intro c_mod_Inr_nonneg) auto
  have "removed (nat (i + 1)) w = removed (Suc (nat i)) w"
    using 9 by (simp add: nat_add_distrib)
  then have "removed (nat (i + 1)) w =
      (shared t)\<lparr>start := st, length_w := length_w (shared t) - 1\<rparr>"
    using sh st by simp
  then show ?case
    using 9 lt by (simp add: min_def)
qed

text \<open>
  When the block is truthy at the first \<open>k\<close> positions of the reading order of
  \<^verbatim>\<open>reject!\<close> and falsy at all others, the call returns, the window is \<open>removed k\<close> of the
  one before, and the semaphore is free. For 1, 2, 3, 4, 5 pushed into a window just
  initialized with a capacity of at least 5 and the block \<open>x < 3\<close>, \<^verbatim>\<open>values\<close> then
  returns 3, 4, 5.
\<close>

theorem reject_removes_truthy_prefix:
  "(idle s \<and> window_ok cap_max (shared s) \<and> int k \<le> length_w (shared s) \<and>
    (\<forall>i<k. blk i (data (shared s)
        ((start (shared s) + int i) mod length_w (shared s))) = Truthy) \<and>
    (\<forall>i. k \<le> i \<and> int i < length_w (shared s) \<longrightarrow> blk i (data (shared s)
        ((start (shared s) + int i) mod length_w (shared s))) = Falsy) \<longrightarrow>
      fst (semian_simple_sliding_window_reject cap_max (Some blk) s) = Returns () \<and>
      shared (snd (semian_simple_sliding_window_reject cap_max (Some blk) s)) =
        removed k (shared s) \<and>
      length_w (removed k (shared s)) = length_w (shared s) - int k \<and>
      idle (snd (semian_simple_sliding_window_reject cap_max (Some blk) s))) \<and>
   (idle t \<and> 5 \<le> c \<and> c \<le> cap_max \<and> cap_max \<le> INT_MAX \<longrightarrow>
      fst (semian_simple_sliding_window_reject cap_max
        (Some (\<lambda>i x. if x < 3 then Truthy else Falsy))
        (run cap_max [Initialize (RInteger c), Push (RInteger 1), Push (RInteger 2),
           Push (RInteger 3), Push (RInteger 4), Push (RInteger 5)] t)) = Returns () \<and>
      fst (semian_simple_sliding_window_values cap_max
        (snd (semian_simple_sliding_window_reject cap_max
          (Some (\<lambda>i x. if x < 3 then Truthy else Falsy))
          (run cap_max [Initialize (RInteger c), Push (RInteger 1), Push (RInteger 2),
             Push (RInteger 3), Push (RInteger 4), Push (RInteger 5)] t)))) =
        Returns [3, 4, 5])"
proof -
  have general: "fst (semian_simple_sliding_window_reject cap_max (Some blk) s) = Returns () \<and>
      shared (snd (semian_simple_sliding_window_reject cap_max (Some blk) s)) =
        removed k (shared s) \<and>
      length_w (removed k (shared s)) = length_w (shared s) - int k \<and>
      idle (snd (semian_simple_sliding_window_reject cap_max (Some blk) s))"
    if h: "idle s" "window_ok cap_max (shared s)" "int k \<le> length_w (shared s)"
      "\<forall>i<k. blk i (data (shared s)
          ((start (shared s) + int i) mod length_w (shared s))) = Truthy"
      "\<forall>i. k \<le> i \<and> int i < length_w (shared s) \<longrightarrow> blk i (data (shared s)
          ((start (shared s) + int i) mod length_w (shared s))) = Falsy"
    for s :: sys and cap_max k blk
  proof -
    let ?s1 = "s\<lparr>sem_held := True\<rparr>"
    let ?r = "reject_loop cap_max blk (start (shared s)) (length_w (shared s)) 0 0 ?s1"
    have ok: "0 \<le> start (shared s)" "length_w (shared s) \<le> cap_max"
      using h(2) by (auto simp: window_ok_def)
    have s1: "shared ?s1 = shared s" by simp
    have loop: "fst ?r = Returns () \<and> shared (snd ?r) = removed k (shared s) \<and>
        sem_held (snd ?r) = sem_held ?s1 \<and> shm (snd ?r) = shm ?s1"
      using ok h(3-5) s1 by (rule reject_loop_prefix)
    then show ?thesis
      using h(1)
      by (simp add: reject_idle [OF h(1)] removed_frame sem_meta_unlock_def idle_def)
  qed
  have example: "fst (semian_simple_sliding_window_reject cap_max
        (Some (\<lambda>i x. if x < 3 then Truthy else Falsy))
        (run cap_max [Initialize (RInteger c), Push (RInteger 1), Push (RInteger 2),
           Push (RInteger 3), Push (RInteger 4), Push (RInteger 5)] t)) = Returns () \<and>
      fst (semian_simple_sliding_window_values cap_max
        (snd (semian_simple_sliding_window_reject cap_max
          (Some (\<lambda>i x. if x < 3 then Truthy else Falsy))
          (run cap_max [Initialize (RInteger c), Push (RInteger 1), Push (RInteger 2),
             Push (RInteger 3), Push (RInteger 4), Push (RInteger 5)] t)))) =
        Returns [3, 4, 5]"
    if h: "idle t" "5 \<le> c" "c \<le> cap_max" "cap_max \<le> INT_MAX"
  proof -
    let ?w = "\<lparr>max_size = c, length_w = 5, start = 0, end_w = 5 mod c,
              data = (data (shared t))(0 := 1, 1 := 2, 2 := 3, 3 := 4, 4 := 5)\<rparr>"
    let ?s = "t\<lparr>shared := ?w\<rparr>"
    let ?blk = "\<lambda>(i::nat) x::int. if x < 3 then Truthy else Falsy"
    let ?r = "semian_simple_sliding_window_reject cap_max (Some ?blk) ?s"
    have built: "run cap_max [Initialize (RInteger c), Push (RInteger 1), Push (RInteger 2),
           Push (RInteger 3), Push (RInteger 4), Push (RInteger 5)] t = ?s"
      using h by (rule built_12345)
    have idle: "idle ?s" using h(1) by (simp add: idle_def)
    have wok: "window_ok cap_max (shared ?s)"
      using h(2,3) by (simp add: window_ok_def)
    have pre: "\<forall>i<2. ?blk i (data (shared ?s)
          ((start (shared ?s) + int i) mod length_w (shared ?s))) = Truthy"
    proof (intro allI impI)
      fix i :: nat assume "i < 2"
      then have "i = 0 \<or> i = 1" by auto
      then show "?blk i (data (shared ?s)
          ((start (shared ?s) + int i) mod length_w (shared ?s))) = Truthy"
        by auto
    qed
    have rest: "\<forall>i. 2 \<le> i \<and> int i < length_w (shared ?s) \<longrightarrow> ?blk i (data (shared ?s)
          ((start (shared ?s) + int i) mod length_w (shared ?s))) = Falsy"
    proof (intro allI impI)
      fix i :: nat assume "2 \<le> i \<and> int i < length_w (shared ?s)"
      then have "i = 2 \<or> i = 3 \<or> i = 4" by auto
      then show "?blk i (data (shared ?s)
          ((start (shared ?s) + int i) mod length_w (shared ?s))) = Falsy"
        by auto
    qed
    have g: "fst ?r = Returns () \<and>
        shared (snd ?r) = removed 2 (shared ?s) \<and>
        length_w (removed 2 (shared ?s)) = length_w (shared ?s) - int 2 \<and>
        idle (snd ?r)"
      using idle wok _ pre rest by (rule general) simp
    have after: "removed 2 (shared ?s) = ?w\<lparr>start := 2, length_w := 3\<rparr>"
      by (simp add: numeral_2_eq_2)
    have wok': "window_ok cap_max (shared (snd ?r))"
      using g after h(2,3) by (simp add: window_ok_def)
    have "samples (shared (snd ?r)) = [3, 4, 5]"
      using g after h(2) by (simp add: samples_def upt_rec mod_pos_pos_trivial)
    then have "fst (semian_simple_sliding_window_values cap_max (snd ?r)) = Returns [3, 4, 5]"
      using g wok' by (simp add: values_returns)
    then show ?thesis
      using g built by simp
  qed
  show ?thesis
    using general example by blast
qed

text \<open>The theorem at the window 1, 2, 3, 4, 5 of capacity 5 with \<open>k = 2\<close>.\<close>

theorem reject_removes_truthy_prefix_witness:
  "fst (semian_simple_sliding_window_reject 8
         (Some (\<lambda>i x. if x < 3 then Truthy else Falsy)) sys_12345) = Returns () \<and>
   shared (snd (semian_simple_sliding_window_reject 8
         (Some (\<lambda>i x. if x < 3 then Truthy else Falsy)) sys_12345)) =
     \<lparr>max_size = 5, length_w = 3, start = 2, end_w = 0,
      data = (\<lambda>_. 0)(0 := 1, 1 := 2, 2 := 3, 3 := 4, 4 := 5)\<rparr> \<and>
   fst (semian_simple_sliding_window_values 8
         (snd (semian_simple_sliding_window_reject 8
           (Some (\<lambda>i x. if x < 3 then Truthy else Falsy))
           (run 8 [Initialize (RInteger 5), Push (RInteger 1), Push (RInteger 2),
              Push (RInteger 3), Push (RInteger 4), Push (RInteger 5)] zero_sys)))) =
     Returns [3, 4, 5]"
proof -
  let ?blk = "\<lambda>(i::nat) x::int. if x < 3 then Truthy else Falsy"
  have pre: "\<forall>i<2. ?blk i (data (shared sys_12345)
          ((start (shared sys_12345) + int i) mod length_w (shared sys_12345))) = Truthy"
  proof (intro allI impI)
    fix i :: nat assume "i < 2"
    then have "i = 0 \<or> i = 1" by auto
    then show "?blk i (data (shared sys_12345)
          ((start (shared sys_12345) + int i) mod length_w (shared sys_12345))) = Truthy"
      by (auto simp: sys_12345_eq)
  qed
  have rest: "\<forall>i. 2 \<le> i \<and> int i < length_w (shared sys_12345) \<longrightarrow>
      ?blk i (data (shared sys_12345)
          ((start (shared sys_12345) + int i) mod length_w (shared sys_12345))) = Falsy"
  proof (intro allI impI)
    fix i :: nat assume "2 \<le> i \<and> int i < length_w (shared sys_12345)"
    then have "i = 2 \<or> i = 3 \<or> i = 4" by (auto simp: sys_12345_eq)
    then show "?blk i (data (shared sys_12345)
          ((start (shared sys_12345) + int i) mod length_w (shared sys_12345))) = Falsy"
      by (auto simp: sys_12345_eq)
  qed
  have a: "idle sys_12345 \<and> window_ok 8 (shared sys_12345) \<and>
      int 2 \<le> length_w (shared sys_12345) \<and>
      (\<forall>i<2. ?blk i (data (shared sys_12345)
          ((start (shared sys_12345) + int i) mod length_w (shared sys_12345))) = Truthy) \<and>
      (\<forall>i. 2 \<le> i \<and> int i < length_w (shared sys_12345) \<longrightarrow>
         ?blk i (data (shared sys_12345)
          ((start (shared sys_12345) + int i) mod length_w (shared sys_12345))) = Falsy)"
    using pre rest by (simp add: sys_12345_eq idle_def window_ok_def)
  have b: "idle zero_sys \<and> (5::int) \<le> 5 \<and> (5::int) \<le> 8 \<and> 8 \<le> INT_MAX"
    by (simp add: idle_def zero_sys_def INT_MAX_def)
  show ?thesis
    using reject_removes_truthy_prefix [where s = sys_12345 and cap_max = 8 and k = 2
        and blk = ?blk, THEN conjunct1, rule_format, OF a]
      reject_removes_truthy_prefix [where t = zero_sys and cap_max = 8 and c = 5,
        THEN conjunct2, rule_format, OF b]
    by (simp add: sys_12345_eq numeral_2_eq_2)
qed

lemma reject_loop_moduli:
  assumes "mod_log s = []"
  shows "\<exists>n. n \<le> nat length0 \<and>
           filter is_read (mod_log (snd (reject_loop cap_max blk start0 length0 0 0 s))) =
             map (\<lambda>i. ReadIndex (start0 + int i) length0) [0..<n] \<and>
           (fst (reject_loop cap_max blk start0 length0 0 0 s) = Returns () \<longrightarrow>
              n = nat length0) \<and>
           map divisor (filter (\<lambda>e. \<not> is_read e)
               (mod_log (snd (reject_loop cap_max blk start0 length0 0 0 s)))) =
             map (\<lambda>m. length_w (shared s) - int m)
               [0..<nat (length_w (shared s) -
                  length_w (shared (snd (reject_loop cap_max blk start0 length0 0 0 s))))]"
proof (rule reject_loop_rule [where
      I = "\<lambda>c i t. 0 \<le> i \<and> i \<le> max 0 length0 \<and> 0 \<le> c \<and>
             length_w (shared t) = length_w (shared s) - c \<and>
             filter is_read (mod_log t) =
               map (\<lambda>i. ReadIndex (start0 + int i) length0) [0..<nat i] \<and>
             map divisor (filter (\<lambda>e. \<not> is_read e) (mod_log t)) =
               map (\<lambda>m. length_w (shared s) - int m) [0..<nat c]"
      and Q = "\<lambda>r. \<exists>n. n \<le> nat length0 \<and>
             filter is_read (mod_log (snd r)) =
               map (\<lambda>i. ReadIndex (start0 + int i) length0) [0..<n] \<and>
             (fst r = Returns () \<longrightarrow> n = nat length0) \<and>
             map divisor (filter (\<lambda>e. \<not> is_read e) (mod_log (snd r))) =
               map (\<lambda>m. length_w (shared s) - int m)
                 [0..<nat (length_w (shared s) - length_w (shared (snd r)))]"],
    goal_cases)
  case 1
  then show ?case using assms by simp
next
  case (2 c i t)
  then have "nat i = nat length0" by (auto simp: max_def split: if_splits)
  then show ?case
    using 2 by (intro exI [of _ "nat i"]) simp
next
  case (3 c i t f)
  then show ?case by (intro exI [of _ "nat i"]) simp
next
  case (4 c i t ix f)
  then have "nat (i + 1) = Suc (nat i)" by (simp add: nat_add_distrib)
  then show ?case
    using 4 by (intro exI [of _ "nat (i + 1)"]) simp
next
  case (5 c i t ix v)
  then have "nat (i + 1) = Suc (nat i)" by (simp add: nat_add_distrib)
  then show ?case
    using 5 by (intro exI [of _ "nat (i + 1)"]) simp
next
  case (6 c i t ix v)
  then have "nat (i + 1) = Suc (nat i)" by (simp add: nat_add_distrib)
  then show ?case
    using 6 by (simp add: max_def)
next
  case (7 c i t ix v)
  then have "nat (i + 1) = Suc (nat i)" by (simp add: nat_add_distrib)
  then show ?case
    using 7 by (intro exI [of _ "nat (i + 1)"]) (simp add: sem_meta_unlock_def)
next
  case (8 c i t ix v f)
  then have "nat (i + 1) = Suc (nat i)" by (simp add: nat_add_distrib)
  then show ?case
    using 8 by (intro exI [of _ "nat (i + 1)"]) simp
next
  case (9 c i t ix v st)
  then have "nat (i + 1) = Suc (nat i)" "nat (c + 1) = Suc (nat c)"
    by (simp_all add: nat_add_distrib)
  then show ?case
    using 9 by (simp add: max_def)
qed

lemma reject_loop_block_cong:
  assumes agree: "\<forall>i. 0 \<le> i \<and> i < length0 \<longrightarrow>
      blk (nat i) (d ((start0 + i) smod length0)) = blk' (nat i) (d ((start0 + i) smod length0))"
    and "0 \<le> i" "data (shared s) = d"
  shows "reject_loop cap_max blk start0 length0 cleared i s =
         reject_loop cap_max blk' start0 length0 cleared i s"
  using assms(2,3)
proof (induction "nat (length0 - i)" arbitrary: cleared i s)
  case 0
  then have "\<not> i < length0" by simp
  then show ?case
    by (simp add: reject_loop.simps [of cap_max blk start0 length0 cleared i s]
        reject_loop.simps [of cap_max blk' start0 length0 cleared i s])
next
  case (Suc n)
  then have lt: "i < length0" by linarith
  have n: "n = nat (length0 - (i + 1))" using Suc.hyps(2) by linarith
  let ?ix = "(start0 + i) smod length0"
  let ?s1 = "s\<lparr>mod_log := mod_log s @ [ReadIndex (start0 + i) length0]\<rparr>"
  have cm: "c_mod (start0 + i) length0 = Inr ?ix"
    using lt Suc.prems(1) by (intro c_mod_nonzero) auto
  have same: "blk (nat i) (d ?ix) = blk' (nat i) (d ?ix)"
    using agree lt Suc.prems(1) by simp
  have keep: "reject_loop cap_max blk start0 length0 cleared (i + 1) ?s1 =
      reject_loop cap_max blk' start0 length0 cleared (i + 1) ?s1"
    using n Suc.prems by (intro Suc.hyps(1)) auto
  have adv: "reject_loop cap_max blk start0 length0 (cleared + 1) (i + 1)
        (?s1\<lparr>shared := (shared ?s1)\<lparr>start := st, length_w := length_w (shared ?s1) - 1\<rparr>,
             mod_log := mod_log ?s1 @
               [AdvanceStart (start (shared ?s1) + 1) (length_w (shared ?s1))]\<rparr>) =
      reject_loop cap_max blk' start0 length0 (cleared + 1) (i + 1)
        (?s1\<lparr>shared := (shared ?s1)\<lparr>start := st, length_w := length_w (shared ?s1) - 1\<rparr>,
             mod_log := mod_log ?s1 @
               [AdvanceStart (start (shared ?s1) + 1) (length_w (shared ?s1))]\<rparr>)" for st
    using n Suc.prems by (intro Suc.hyps(1)) auto
  show ?case
    unfolding reject_loop.simps [of cap_max blk start0 length0 cleared i s]
      reject_loop.simps [of cap_max blk' start0 length0 cleared i s]
    using lt cm same keep adv Suc.prems(2)
    by (auto simp: Let_def read_data_def split: sum.splits yield.splits)
qed

text \<open>
  C4, as the code has it. The index read at position \<open>i\<close> is
  \<^verbatim>\<open>(start + i) % length\<close> on the locals \<^verbatim>\<open>start\<close> and \<^verbatim>\<open>length\<close>, which hold the
  values of the window at the beginning of the call: the modulus of every read index is
  that saved length (not the capacity), and it stays the same for the whole call. What
  shrinks is the modulus of the update of \<^verbatim>\<open>window->start\<close>: the accepted removals
  divide by the saved length, the saved length minus 1, and so on. The second part says
  the same without the log: two blocks that agree, at every position \<open>i\<close>, on the sample
  at that index of the window as it was when the call began, give the same call.
\<close>

theorem reject_read_modulus_is_saved_length:
  assumes "idle s" "mod_log s = []"
  shows "(\<exists>n. n \<le> nat (length_w (shared s)) \<and>
           filter is_read
               (mod_log (snd (semian_simple_sliding_window_reject cap_max (Some blk) s))) =
             map (\<lambda>i. ReadIndex (start (shared s) + int i) (length_w (shared s))) [0..<n] \<and>
           (fst (semian_simple_sliding_window_reject cap_max (Some blk) s) = Returns () \<longrightarrow>
              n = nat (length_w (shared s))) \<and>
           map divisor (filter (\<lambda>e. \<not> is_read e)
               (mod_log (snd (semian_simple_sliding_window_reject cap_max (Some blk) s)))) =
             map (\<lambda>m. length_w (shared s) - int m)
               [0..<nat (length_w (shared s) -
                  length_w (shared (snd (semian_simple_sliding_window_reject cap_max
                    (Some blk) s))))]) \<and>
         ((\<forall>i. 0 \<le> i \<and> i < length_w (shared s) \<longrightarrow>
             blk (nat i) (data (shared s) ((start (shared s) + i) smod length_w (shared s))) =
             blk' (nat i) (data (shared s) ((start (shared s) + i) smod length_w (shared s)))) \<longrightarrow>
          semian_simple_sliding_window_reject cap_max (Some blk) s =
          semian_simple_sliding_window_reject cap_max (Some blk') s)"
proof (intro conjI impI)
  let ?s1 = "s\<lparr>sem_held := True\<rparr>"
  let ?r = "reject_loop cap_max blk (start (shared s)) (length_w (shared s)) 0 0 ?s1"
  have "mod_log ?s1 = []" using assms(2) by simp
  from reject_loop_moduli [OF this, of "length_w (shared s)" cap_max blk "start (shared s)"]
  obtain n where n: "n \<le> nat (length_w (shared s))"
    "filter is_read (mod_log (snd ?r)) =
       map (\<lambda>i. ReadIndex (start (shared s) + int i) (length_w (shared s))) [0..<n]"
    "fst ?r = Returns () \<longrightarrow> n = nat (length_w (shared s))"
    "map divisor (filter (\<lambda>e. \<not> is_read e) (mod_log (snd ?r))) =
       map (\<lambda>m. length_w (shared s) - int m)
         [0..<nat (length_w (shared s) - length_w (shared (snd ?r)))]"
    by auto
  show "\<exists>n. n \<le> nat (length_w (shared s)) \<and>
           filter is_read
               (mod_log (snd (semian_simple_sliding_window_reject cap_max (Some blk) s))) =
             map (\<lambda>i. ReadIndex (start (shared s) + int i) (length_w (shared s))) [0..<n] \<and>
           (fst (semian_simple_sliding_window_reject cap_max (Some blk) s) = Returns () \<longrightarrow>
              n = nat (length_w (shared s))) \<and>
           map divisor (filter (\<lambda>e. \<not> is_read e)
               (mod_log (snd (semian_simple_sliding_window_reject cap_max (Some blk) s)))) =
             map (\<lambda>m. length_w (shared s) - int m)
               [0..<nat (length_w (shared s) -
                  length_w (shared (snd (semian_simple_sliding_window_reject cap_max
                    (Some blk) s))))]"
    using n by (intro exI [of _ n]) (simp add: reject_idle [OF assms(1)] sem_meta_unlock_def)
next
  assume agree: "\<forall>i. 0 \<le> i \<and> i < length_w (shared s) \<longrightarrow>
             blk (nat i) (data (shared s) ((start (shared s) + i) smod length_w (shared s))) =
             blk' (nat i) (data (shared s) ((start (shared s) + i) smod length_w (shared s)))"
  have "reject_loop cap_max blk (start (shared s)) (length_w (shared s)) 0 0
          (s\<lparr>sem_held := True\<rparr>) =
        reject_loop cap_max blk' (start (shared s)) (length_w (shared s)) 0 0
          (s\<lparr>sem_held := True\<rparr>)"
    using agree by (rule reject_loop_block_cong) simp_all
  then show "semian_simple_sliding_window_reject cap_max (Some blk) s =
      semian_simple_sliding_window_reject cap_max (Some blk') s"
    by (simp add: reject_idle [OF assms(1)])
qed

text \<open>The theorem at the window 1, 2, 3, 4, 5 and the block \<open>x < 3\<close>.\<close>

theorem reject_read_modulus_is_saved_length_witness:
  "idle sys_12345 \<and> mod_log sys_12345 = [] \<and>
   filter is_read (mod_log (snd (semian_simple_sliding_window_reject 8
       (Some (\<lambda>i x. if x < 3 then Truthy else Falsy)) sys_12345))) =
     [ReadIndex 0 5, ReadIndex 1 5, ReadIndex 2 5, ReadIndex 3 5, ReadIndex 4 5] \<and>
   map divisor (filter (\<lambda>e. \<not> is_read e)
     (mod_log (snd (semian_simple_sliding_window_reject 8
       (Some (\<lambda>i x. if x < 3 then Truthy else Falsy)) sys_12345)))) = [5, 4] \<and>
   semian_simple_sliding_window_reject 8
       (Some (\<lambda>i x. if x < 3 then Truthy else Falsy)) sys_12345 =
   semian_simple_sliding_window_reject 8
       (Some (\<lambda>i x. if x < 3 \<or> x = 99 then Truthy else Falsy)) sys_12345"
proof -
  let ?blk = "\<lambda>(i::nat) x::int. if x < 3 then Truthy else Falsy"
  let ?blk' = "\<lambda>(i::nat) x::int. if x < 3 \<or> x = 99 then Truthy else Falsy"
  let ?r = "semian_simple_sliding_window_reject 8 (Some ?blk) sys_12345"
  have i: "idle sys_12345" and l: "mod_log sys_12345 = []"
    by (simp_all add: sys_12345_eq idle_def)
  have ret: "fst ?r = Returns ()" and len: "length_w (shared (snd ?r)) = 3"
    by (simp_all add: sys_12345_eq eval_defs)
  note inst = reject_read_modulus_is_saved_length [OF i l, of 8 ?blk ?blk']
  from inst [THEN conjunct1]
  obtain n where n: "filter is_read (mod_log (snd ?r)) =
       map (\<lambda>i. ReadIndex (start (shared sys_12345) + int i) (length_w (shared sys_12345)))
         [0..<n]"
    "fst ?r = Returns () \<longrightarrow> n = nat (length_w (shared sys_12345))"
    "map divisor (filter (\<lambda>e. \<not> is_read e) (mod_log (snd ?r))) =
       map (\<lambda>m. length_w (shared sys_12345) - int m)
         [0..<nat (length_w (shared sys_12345) - length_w (shared (snd ?r)))]"
    by auto
  from n(2) ret have "n = 5" by (simp add: sys_12345_eq)
  with n(1) have a: "filter is_read (mod_log (snd ?r)) =
     [ReadIndex 0 5, ReadIndex 1 5, ReadIndex 2 5, ReadIndex 3 5, ReadIndex 4 5]"
    by (simp add: sys_12345_eq upt_rec)
  from n(3) len have b: "map divisor (filter (\<lambda>e. \<not> is_read e) (mod_log (snd ?r))) = [5, 4]"
    by (simp add: sys_12345_eq upt_rec)
  have agree: "\<forall>i. 0 \<le> i \<and> i < length_w (shared sys_12345) \<longrightarrow>
      ?blk (nat i) (data (shared sys_12345)
         ((start (shared sys_12345) + i) smod length_w (shared sys_12345))) =
      ?blk' (nat i) (data (shared sys_12345)
         ((start (shared sys_12345) + i) smod length_w (shared sys_12345)))"
    by (simp add: sys_12345_eq)
  from inst [THEN conjunct2, THEN mp, OF agree]
  have c: "?r = semian_simple_sliding_window_reject 8 (Some ?blk') sys_12345" .
  show ?thesis using i l a b c by simp
qed

text \<open>
  C4 as it is stated has the modulus of the read index shrink with the length of the
  window. On the window 1, 2, 3, 4, 5 with the block \<open>x < 3\<close>, the read at position 1
  comes after a removal, when the window has \<open>start = 1\<close> and \<open>length = 4\<close>, and still
  divides by 5. The sample handed to the block there is \<open>data[1] = 2\<close>, not
  \<open>data[(1 + 1) mod 4] = 3\<close>: a block that accepts position 0 and raises at position 1
  exactly when it is given 2 does raise.
\<close>

theorem reject_read_modulus_counterexample:
  "mod_log (snd (semian_simple_sliding_window_reject 8
       (Some (\<lambda>i x. if x < 3 then Truthy else Falsy)) sys_12345)) =
     [ReadIndex 0 5, AdvanceStart 1 5, ReadIndex 1 5, AdvanceStart 2 4,
      ReadIndex 2 5, ReadIndex 3 5, ReadIndex 4 5] \<and>
   \<not> moduli_follow_length (length_w (shared sys_12345))
       (mod_log (snd (semian_simple_sliding_window_reject 8
         (Some (\<lambda>i x. if x < 3 then Truthy else Falsy)) sys_12345))) \<and>
   data (shared sys_12345) 1 = 2 \<and> data (shared sys_12345) ((1 + 1) mod 4) = 3 \<and>
   fst (semian_simple_sliding_window_reject 8
         (Some (\<lambda>i x. if i = 0 then Truthy
                        else if i = 1 \<and> x = 2 then YieldRaises else Falsy)) sys_12345) =
     Raises BlockException \<and>
   shared (snd (semian_simple_sliding_window_reject 8
         (Some (\<lambda>i x. if i = 0 then Truthy
                        else if i = 1 \<and> x = 2 then YieldRaises else Falsy)) sys_12345)) =
     \<lparr>max_size = 5, length_w = 4, start = 1, end_w = 0,
      data = (\<lambda>_. 0)(0 := 1, 1 := 2, 2 := 3, 3 := 4, 4 := 5)\<rparr>"
proof -
  have "mod_log (snd (semian_simple_sliding_window_reject 8
       (Some (\<lambda>i x. if x < 3 then Truthy else Falsy)) sys_12345)) =
     [ReadIndex 0 5, AdvanceStart 1 5, ReadIndex 1 5, AdvanceStart 2 4,
      ReadIndex 2 5, ReadIndex 3 5, ReadIndex 4 5]"
    by (simp add: sys_12345_eq eval_defs)
  moreover have "fst (semian_simple_sliding_window_reject 8
         (Some (\<lambda>i x. if i = 0 then Truthy
                        else if i = 1 \<and> x = 2 then YieldRaises else Falsy)) sys_12345) =
     Raises BlockException"
    by (simp add: sys_12345_eq eval_defs)
  moreover have "shared (snd (semian_simple_sliding_window_reject 8
         (Some (\<lambda>i x. if i = 0 then Truthy
                        else if i = 1 \<and> x = 2 then YieldRaises else Falsy)) sys_12345)) =
     \<lparr>max_size = 5, length_w = 4, start = 1, end_w = 0,
      data = (\<lambda>_. 0)(0 := 1, 1 := 2, 2 := 3, 3 := 4, 4 := 5)\<rparr>"
    by (simp add: sys_12345_eq eval_defs)
  ultimately show ?thesis
    by (simp add: sys_12345_eq)
qed

subsection \<open>Clearing\<close>

text \<open>
  \<^verbatim>\<open>destroy\<close> (\<^verbatim>\<open>semian_simple_sliding_window_clear\<close>) sets \<open>length\<close>, \<open>start\<close> and
  \<open>end\<close> to 0 and nothing else: \<^verbatim>\<open>size\<close> then returns 0, \<^verbatim>\<open>values\<close> the empty array,
  \<^verbatim>\<open>max_size\<close> the capacity as before.
\<close>

theorem clear_resets_counters:
  assumes "idle s"
  shows "semian_simple_sliding_window_clear s =
           (Returns (), s\<lparr>shared := (shared s)\<lparr>length_w := 0, start := 0, end_w := 0\<rparr>\<rparr>) \<and>
         fst (semian_simple_sliding_window_size (snd (semian_simple_sliding_window_clear s))) =
           Returns 0 \<and>
         fst (semian_simple_sliding_window_values cap_max
               (snd (semian_simple_sliding_window_clear s))) = Returns [] \<and>
         fst (semian_simple_sliding_window_max_size (snd (semian_simple_sliding_window_clear s))) =
           Returns (max_size (shared s))"
  using assms
  by (simp add: semian_simple_sliding_window_clear_def semian_simple_sliding_window_size_def
      semian_simple_sliding_window_values_def semian_simple_sliding_window_max_size_def
      sem_meta_lock_def get_window_def idle_def unlock_after_lock values_loop.simps)

text \<open>The theorem at the window 1, 2, 3, 4, 5 of capacity 5.\<close>

theorem clear_resets_counters_witness:
  "semian_simple_sliding_window_clear sys_12345 =
     (Returns (),
      \<lparr>shared = \<lparr>max_size = 5, length_w = 0, start = 0, end_w = 0,
                 data = (\<lambda>_. 0)(0 := 1, 1 := 2, 2 := 3, 3 := 4, 4 := 5)\<rparr>,
       sem_held = False, shm = ShmOk, mod_log = []\<rparr>) \<and>
   fst (semian_simple_sliding_window_values 8
         (snd (semian_simple_sliding_window_clear sys_12345))) = Returns [] \<and>
   fst (semian_simple_sliding_window_max_size
         (snd (semian_simple_sliding_window_clear sys_12345))) = Returns 5"
proof -
  have "idle sys_12345" by (simp add: sys_12345_eq idle_def)
  from clear_resets_counters [OF this, of 8] show ?thesis
    by (auto simp: sys_12345_eq)
qed

subsection \<open>Sequences of calls\<close>

lemma reject_loop_window_ok:
  assumes "window_ok cap_max (shared s)" "0 \<le> i" "length_w (shared s) = length0 - cleared"
  shows "window_ok cap_max (shared (snd (reject_loop cap_max blk start0 length0 cleared i s)))"
proof (rule reject_loop_rule [where
      I = "\<lambda>c i t. window_ok cap_max (shared t) \<and> 0 \<le> i \<and> length_w (shared t) = length0 - c"
      and Q = "\<lambda>r. window_ok cap_max (shared (snd r))"],
    goal_cases)
  case 1
  then show ?case using assms by simp
next
  case (9 c i t ix v st)
  then have pos: "0 < length_w (shared t)" "0 \<le> start (shared t)"
    by (auto simp: window_ok_def)
  then have "st = (start (shared t) + 1) mod length_w (shared t)"
    using 9 by (intro c_mod_Inr_nonneg) auto
  then have "0 \<le> st" "st < length_w (shared t)"
    using pos by auto
  then show ?case
    using 9 by (auto simp: window_ok_def)
qed (auto simp: sem_meta_unlock_def)

lemma reject_window_ok:
  assumes "window_ok cap_max (shared s)"
  shows "window_ok cap_max (shared (snd (semian_simple_sliding_window_reject cap_max b s)))"
proof (cases b)
  case None
  then show ?thesis
    using assms by (simp add: semian_simple_sliding_window_reject_def)
next
  case (Some blk)
  show ?thesis
  proof (cases "idle s")
    case True
    let ?r = "reject_loop cap_max blk (start (shared s)) (length_w (shared s)) 0 0
        (s\<lparr>sem_held := True\<rparr>)"
    have "window_ok cap_max (shared (snd ?r))"
      using assms by (intro reject_loop_window_ok) simp_all
    then show ?thesis
      using Some by (simp add: reject_idle [OF True] sem_meta_unlock_def)
  next
    case False
    then show ?thesis
      using assms Some
      by (auto simp: semian_simple_sliding_window_reject_def sem_meta_lock_def get_window_def
          idle_def split: shm_env.splits)
  qed
qed

lemma push_window_ok:
  assumes "window_ok cap_max (shared s)"
  shows "window_ok cap_max (shared (snd (semian_simple_sliding_window_push cap_max v s)))"
proof -
  let ?w = "shared s"
  have ev: "push_evict ?w =
      Inr (if length_w ?w = max_size ?w
           then ?w\<lparr>length_w := length_w ?w - 1, start := (start ?w + 1) mod max_size ?w\<rparr>
           else ?w)"
    using assms by (simp add: push_evict_def window_ok_def c_mod_nonneg)
  have en: "c_mod (end_w ?w + 1) (max_size ?w) = Inr ((end_w ?w + 1) mod max_size ?w)"
    using assms by (intro c_mod_nonneg) (auto simp: window_ok_def)
  show ?thesis
    using assms
    by (auto simp: semian_simple_sliding_window_push_def sem_meta_lock_def sem_meta_unlock_def
        get_window_def ev en Let_def window_ok_def split: shm_env.splits sum.splits)
qed

lemma check_max_size_arg_Returns:
  "check_max_size_arg cap_max v = Returns n \<Longrightarrow> 1 \<le> n \<and> n \<le> cap_max"
  by (auto simp: check_max_size_arg_def split: rb_value.splits if_splits sum.splits outcome.splits)

lemma initialize_window_ok:
  assumes "window_ok cap_max (shared s) \<or>
    fst (semian_simple_sliding_window_initialize cap_max v s) = Returns ()"
  shows "window_ok cap_max (shared (snd (semian_simple_sliding_window_initialize cap_max v s)))"
  using assms
  by (auto simp: semian_simple_sliding_window_initialize_def get_window_def window_ok_def
      dest!: check_max_size_arg_Returns split: shm_env.splits outcome.splits)

lemma exec_window_ok:
  assumes "window_ok cap_max (shared s)"
  shows "window_ok cap_max (shared (exec cap_max s c))"
proof (cases c)
  case (Initialize v)
  then show ?thesis using assms by (simp add: initialize_window_ok)
next
  case (Reject b)
  then show ?thesis using assms by (simp add: reject_window_ok)
next
  case (Push v)
  then show ?thesis using assms by (simp add: push_window_ok)
next
  case Clear
  then show ?thesis
    using assms
    by (auto simp: semian_simple_sliding_window_clear_def sem_meta_lock_def sem_meta_unlock_def
        get_window_def window_ok_def split: shm_env.splits)
next
  case Size
  then show ?thesis
    using assms
    by (auto simp: semian_simple_sliding_window_size_def sem_meta_lock_def sem_meta_unlock_def
        get_window_def split: shm_env.splits)
next
  case MaxSize
  then show ?thesis
    using assms
    by (auto simp: semian_simple_sliding_window_max_size_def sem_meta_lock_def
        sem_meta_unlock_def get_window_def split: shm_env.splits)
next
  case Values
  then show ?thesis
    using assms
    by (auto simp: semian_simple_sliding_window_values_def sem_meta_lock_def sem_meta_unlock_def
        get_window_def split: shm_env.splits sum.splits)
next
  case Last
  then show ?thesis
    using assms
    by (auto simp: semian_simple_sliding_window_last_def sem_meta_lock_def sem_meta_unlock_def
        get_window_def split: shm_env.splits sum.splits)
qed

lemma run_window_ok:
  "window_ok cap_max (shared s) \<Longrightarrow> window_ok cap_max (shared (run cap_max calls s))"
  by (induction calls arbitrary: s) (simp_all add: run_Nil run_Cons exec_window_ok del: exec.simps)

text \<open>
  After an \<^verbatim>\<open>initialize_sliding_window\<close> that returned, whatever calls follow and however
  they end, every field of the record is in its range; in particular
  \<open>0 \<le> length \<le> max_size\<close>.
\<close>

theorem calls_keep_length_within_capacity:
  assumes "fst (semian_simple_sliding_window_initialize cap_max v s) = Returns ()"
  shows "window_ok cap_max (shared (run cap_max (Initialize v # calls) s)) \<and>
         0 \<le> length_w (shared (run cap_max (Initialize v # calls) s)) \<and>
         length_w (shared (run cap_max (Initialize v # calls) s)) \<le>
           max_size (shared (run cap_max (Initialize v # calls) s))"
proof -
  have "window_ok cap_max (shared (exec cap_max s (Initialize v)))"
    using assms by (simp add: initialize_window_ok)
  then have "window_ok cap_max (shared (run cap_max (Initialize v # calls) s))"
    unfolding run_Cons by (rule run_window_ok)
  then show ?thesis by (simp add: window_ok_def)
qed

text \<open>
  The theorem at a sequence with a \<^verbatim>\<open>reject!\<close> and a push that raises, on a window of
  capacity 3.
\<close>

theorem calls_keep_length_within_capacity_witness:
  "fst (semian_simple_sliding_window_initialize 8 (RInteger 3) zero_sys) = Returns () \<and>
   window_ok 8 (shared (run 8 [Initialize (RInteger 3), Push (RInteger 1), Push (RInteger 2),
       Reject (Some (\<lambda>i x. Truthy)), Push (RInteger 3), Push (RInteger 4), Push (RInteger 5),
       Push RNil] zero_sys)) \<and>
   length_w (shared (run 8 [Initialize (RInteger 3), Push (RInteger 1), Push (RInteger 2),
       Reject (Some (\<lambda>i x. Truthy)), Push (RInteger 3), Push (RInteger 4), Push (RInteger 5),
       Push RNil] zero_sys)) = 3"
proof -
  have i: "fst (semian_simple_sliding_window_initialize 8 (RInteger 3) zero_sys) = Returns ()"
    by (simp add: eval_defs)
  have "length_w (shared (run 8 [Initialize (RInteger 3), Push (RInteger 1), Push (RInteger 2),
       Reject (Some (\<lambda>i x. Truthy)), Push (RInteger 3), Push (RInteger 4), Push (RInteger 5),
       Push RNil] zero_sys)) = 3"
    by (simp add: eval_defs)
  then show ?thesis
    using i calls_keep_length_within_capacity [OF i, of "[Push (RInteger 1), Push (RInteger 2),
       Reject (Some (\<lambda>i x. Truthy)), Push (RInteger 3), Push (RInteger 4), Push (RInteger 5),
       Push RNil]"]
    by simp
qed

section \<open>Where the code leaves the data model\<close>

text \<open>
  C2 has \<open>end = (start + length) mod max_size\<close> hold after every \<^verbatim>\<open>reject!\<close>, whether it
  returns or raises. The function advances \<^verbatim>\<open>window->start\<close> modulo \<^verbatim>\<open>window->length\<close>,
  where the eviction of \<^verbatim>\<open>push\<close> advances it modulo \<^verbatim>\<open>window->max_size\<close>, and it never
  touches \<^verbatim>\<open>end\<close>. A window of capacity 5 that was pushed 1 and 2 satisfies the
  relation; after a \<^verbatim>\<open>reject!\<close> that removes both and returns, \<open>start = 0\<close>,
  \<open>length = 0\<close> and \<open>end = 2\<close>. A push of 3 then goes to index 2, and \<^verbatim>\<open>values\<close>
  returns the rejected 1. The same after a \<^verbatim>\<open>reject!\<close> that raises: on 1, 2, 3, 4, 5 in
  a window of capacity 8, with the block \<open>x \<noteq> 4\<close>, three removals leave \<open>start = 0\<close>,
  \<open>length = 2\<close>, \<open>end = 5\<close>.
\<close>

theorem reject_breaks_end_invariant:
  "ring_ok (shared (run 8 [Initialize (RInteger 5), Push (RInteger 1), Push (RInteger 2)] zero_sys)) \<and>
   semian_simple_sliding_window_reject 8 (Some (\<lambda>i x. Truthy))
       (run 8 [Initialize (RInteger 5), Push (RInteger 1), Push (RInteger 2)] zero_sys) =
     (Returns (),
      \<lparr>shared = \<lparr>max_size = 5, length_w = 0, start = 0, end_w = 2,
                 data = (\<lambda>_. 0)(0 := 1, 1 := 2)\<rparr>,
       sem_held = False, shm = ShmOk,
       mod_log = [ReadIndex 0 2, AdvanceStart 1 2, ReadIndex 1 2, AdvanceStart 2 1]\<rparr>) \<and>
   \<not> ring_ok (shared (run 8 [Initialize (RInteger 5), Push (RInteger 1), Push (RInteger 2),
                              Reject (Some (\<lambda>i x. Truthy))] zero_sys)) \<and>
   fst (semian_simple_sliding_window_values 8
         (run 8 [Initialize (RInteger 5), Push (RInteger 1), Push (RInteger 2),
                 Reject (Some (\<lambda>i x. Truthy)), Push (RInteger 3)] zero_sys)) = Returns [1] \<and>
   fst (semian_simple_sliding_window_reject 8 (Some (\<lambda>i x. if x = 4 then Falsy else Truthy))
         (run 8 [Initialize (RInteger 8), Push (RInteger 1), Push (RInteger 2), Push (RInteger 3),
                 Push (RInteger 4), Push (RInteger 5)] zero_sys)) =
     Raises (ArgError ''reject! must delete monotonically'') \<and>
   shared (snd (semian_simple_sliding_window_reject 8
         (Some (\<lambda>i x. if x = 4 then Falsy else Truthy))
         (run 8 [Initialize (RInteger 8), Push (RInteger 1), Push (RInteger 2), Push (RInteger 3),
                 Push (RInteger 4), Push (RInteger 5)] zero_sys))) =
     \<lparr>max_size = 8, length_w = 2, start = 0, end_w = 5,
      data = (\<lambda>_. 0)(0 := 1, 1 := 2, 2 := 3, 3 := 4, 4 := 5)\<rparr> \<and>
   \<not> ring_ok (shared (snd (semian_simple_sliding_window_reject 8
         (Some (\<lambda>i x. if x = 4 then Falsy else Truthy))
         (run 8 [Initialize (RInteger 8), Push (RInteger 1), Push (RInteger 2), Push (RInteger 3),
                 Push (RInteger 4), Push (RInteger 5)] zero_sys))))"
  by (simp add: ring_ok_def eval_defs)

text \<open>
  C3 has \<^verbatim>\<open>reject!\<close> raise, on every window, when the \<open>k\<close>-th sample the block accepts
  is not at logical position \<open>k\<close>, and on the window 1, 2, 3, 4, 5 with the block
  \<open>x = 1 or x = 3\<close> raise and leave 2, 3, 4, 5. \<^verbatim>\<open>reject!\<close> reads its position \<open>i\<close> at
  \<^verbatim>\<open>(start + i) % length\<close>, where \<^verbatim>\<open>values\<close> reads logical position \<open>i\<close> at
  \<^verbatim>\<open>(start + i) % max_size\<close>; on a window whose live range wraps around the end of
  \<^verbatim>\<open>data\<close> the two differ. A window of capacity 6 is filled, pushed 3, 4, 5 over its
  oldest samples, and a \<^verbatim>\<open>reject!\<close> removes its oldest sample, 0: \<open>start = 4\<close>,
  \<open>length = 5\<close>, \<open>end = 3\<close>, the counters agree, and \<^verbatim>\<open>values\<close> returns 1, 2, 3, 4, 5.
  The block \<open>x = 1 or x = 3\<close> is then given \<open>data[4]\<close>, \<open>data[0]\<close>, \<open>data[1]\<close>,
  \<open>data[2]\<close>, \<open>data[3]\<close>, which are 1, 3, 4, 5, 0. The sample 2 at logical position 1 is
  never given to it, its two truthy results come first, and the call returns with no
  error: \<^verbatim>\<open>values\<close> returns 4, 5, 0 afterwards. Where the live range does not wrap,
  the call does raise, as \<open>reject_non_monotonic\<close> shows.
\<close>

theorem reject_misses_gap_on_wrapped_window:
  "shared (run 8 [Initialize (RInteger 6), Push (RInteger 9), Push (RInteger 9), Push (RInteger 9),
       Push (RInteger 0), Push (RInteger 1), Push (RInteger 2), Push (RInteger 3),
       Push (RInteger 4), Push (RInteger 5),
       Reject (Some (\<lambda>i x. if x = 0 then Truthy else Falsy))] zero_sys) =
     \<lparr>max_size = 6, length_w = 5, start = 4, end_w = 3,
      data = (\<lambda>_. 0)(3 := 0, 4 := 1, 5 := 2, 0 := 3, 1 := 4, 2 := 5)\<rparr> \<and>
   ring_ok (shared (run 8 [Initialize (RInteger 6), Push (RInteger 9), Push (RInteger 9), Push (RInteger 9),
       Push (RInteger 0), Push (RInteger 1), Push (RInteger 2), Push (RInteger 3),
       Push (RInteger 4), Push (RInteger 5),
       Reject (Some (\<lambda>i x. if x = 0 then Truthy else Falsy))] zero_sys)) \<and>
   fst (semian_simple_sliding_window_values 8
     (run 8 [Initialize (RInteger 6), Push (RInteger 9), Push (RInteger 9), Push (RInteger 9),
       Push (RInteger 0), Push (RInteger 1), Push (RInteger 2), Push (RInteger 3),
       Push (RInteger 4), Push (RInteger 5),
       Reject (Some (\<lambda>i x. if x = 0 then Truthy else Falsy))] zero_sys)) = Returns [1, 2, 3, 4, 5] \<and>
   fst (semian_simple_sliding_window_reject 8
     (Some (\<lambda>i x. if x = 1 \<or> x = 3 then Truthy else Falsy))
     (run 8 [Initialize (RInteger 6), Push (RInteger 9), Push (RInteger 9), Push (RInteger 9),
       Push (RInteger 0), Push (RInteger 1), Push (RInteger 2), Push (RInteger 3),
       Push (RInteger 4), Push (RInteger 5),
       Reject (Some (\<lambda>i x. if x = 0 then Truthy else Falsy))] zero_sys)) = Returns () \<and>
   drop 7 (mod_log (snd (semian_simple_sliding_window_reject 8
     (Some (\<lambda>i x. if x = 1 \<or> x = 3 then Truthy else Falsy))
     (run 8 [Initialize (RInteger 6), Push (RInteger 9), Push (RInteger 9), Push (RInteger 9),
       Push (RInteger 0), Push (RInteger 1), Push (RInteger 2), Push (RInteger 3),
       Push (RInteger 4), Push (RInteger 5),
       Reject (Some (\<lambda>i x. if x = 0 then Truthy else Falsy))] zero_sys)))) =
     [ReadIndex 4 5, AdvanceStart 5 5, ReadIndex 5 5, AdvanceStart 1 4,
      ReadIndex 6 5, ReadIndex 7 5, ReadIndex 8 5] \<and>
   shared (run 8 [Initialize (RInteger 6), Push (RInteger 9), Push (RInteger 9), Push (RInteger 9),
       Push (RInteger 0), Push (RInteger 1), Push (RInteger 2), Push (RInteger 3),
       Push (RInteger 4), Push (RInteger 5),
       Reject (Some (\<lambda>i x. if x = 0 then Truthy else Falsy)),
       Reject (Some (\<lambda>i x. if x = 1 \<or> x = 3 then Truthy else Falsy))] zero_sys) =
     \<lparr>max_size = 6, length_w = 3, start = 1, end_w = 3,
      data = (\<lambda>_. 0)(3 := 0, 4 := 1, 5 := 2, 0 := 3, 1 := 4, 2 := 5)\<rparr> \<and>
   fst (semian_simple_sliding_window_values 8
     (run 8 [Initialize (RInteger 6), Push (RInteger 9), Push (RInteger 9), Push (RInteger 9),
       Push (RInteger 0), Push (RInteger 1), Push (RInteger 2), Push (RInteger 3),
       Push (RInteger 4), Push (RInteger 5),
       Reject (Some (\<lambda>i x. if x = 0 then Truthy else Falsy)),
       Reject (Some (\<lambda>i x. if x = 1 \<or> x = 3 then Truthy else Falsy))] zero_sys)) = Returns [4, 5, 0]"
  by (simp add: ring_ok_def eval_defs)


text \<open>
  C8 has \<^verbatim>\<open>last\<close> on an empty window read inside the array, at
  \<open>(start - 1) mod max_size\<close>. On a window of capacity 2 that is empty the index is
  \<^verbatim>\<open>(0 + 0 - 1) % 2\<close>, which is \<open>-1\<close> in C, and \<^verbatim>\<open>data[-1]\<close> is outside the array.
\<close>

theorem last_on_empty_reads_before_data:
  "length_w (shared (run 8 [Initialize (RInteger 2)] zero_sys)) = 0 \<and>
   c_mod (start (shared (run 8 [Initialize (RInteger 2)] zero_sys)) +
          length_w (shared (run 8 [Initialize (RInteger 2)] zero_sys)) - 1)
     (max_size (shared (run 8 [Initialize (RInteger 2)] zero_sys))) = Inr (- 1) \<and>
   read_data 8 (shared (run 8 [Initialize (RInteger 2)] zero_sys)) (- 1) = Inl OutOfBounds \<and>
   fst (semian_simple_sliding_window_last 8 (run 8 [Initialize (RInteger 2)] zero_sys)) =
     Faults OutOfBounds"
  by (simp add: eval_defs)

text \<open>
  C9 has the semaphore released on every path that ends in an error. \<^verbatim>\<open>push\<close> of a
  value that \<^verbatim>\<open>RB_NUM2INT\<close> refuses (\<^verbatim>\<open>nil\<close>, or 2147483648) raises between
  \<^verbatim>\<open>sem_meta_lock\<close> and \<^verbatim>\<open>sem_meta_unlock\<close>, with \<^verbatim>\<open>length\<close> already incremented; a
  block that raises does the same to \<^verbatim>\<open>reject!\<close>. The semaphore stays taken and the
  next call blocks. \<^verbatim>\<open>get_window\<close>, called inside the critical section of every
  method, raises there too when the segment cannot be attached. Only the path of
  "reject! must delete monotonically" unlocks before it raises.
\<close>

theorem errors_leave_semaphore_held:
  "semian_simple_sliding_window_push 8 RNil (run 8 [Initialize (RInteger 5)] zero_sys) =
     (Raises TypeError,
      \<lparr>shared = \<lparr>max_size = 5, length_w = 1, start = 0, end_w = 0, data = (\<lambda>_. 0)\<rparr>,
       sem_held = True, shm = ShmOk, mod_log = []\<rparr>) \<and>
   fst (semian_simple_sliding_window_push 8 (RInteger 2147483648)
         (run 8 [Initialize (RInteger 5)] zero_sys)) = Raises RangeError \<and>
   sem_held (snd (semian_simple_sliding_window_push 8 (RInteger 2147483648)
         (run 8 [Initialize (RInteger 5)] zero_sys))) \<and>
   fst (semian_simple_sliding_window_reject 8 (Some (\<lambda>i x. YieldRaises)) sys_12345) =
     Raises BlockException \<and>
   sem_held (snd (semian_simple_sliding_window_reject 8 (Some (\<lambda>i x. YieldRaises)) sys_12345)) \<and>
   fst (semian_simple_sliding_window_size
         (snd (semian_simple_sliding_window_push 8 RNil
                (run 8 [Initialize (RInteger 5)] zero_sys)))) = Blocks \<and>
   fst (semian_simple_sliding_window_size (zero_sys\<lparr>shm := ShmatFails\<rparr>)) =
     Raises (ArgError ''could not get shared memory (%s)'') \<and>
   sem_held (snd (semian_simple_sliding_window_size (zero_sys\<lparr>shm := ShmatFails\<rparr>))) \<and>
   fst (semian_simple_sliding_window_reject 8
         (Some (\<lambda>i x. if x = 1 \<or> x = 3 then Truthy else Falsy)) sys_12345) =
     Raises (ArgError ''reject! must delete monotonically'') \<and>
   \<not> sem_held (snd (semian_simple_sliding_window_reject 8
         (Some (\<lambda>i x. if x = 1 \<or> x = 3 then Truthy else Falsy)) sys_12345))"
  by (simp add: sys_12345_eq eval_defs)

end
